theory Spec2Isabelle
  imports Complex_Main "HOL-Library.Char_ord"
begin

section \<open>Python built-ins used by the ingestion code\<close>

text \<open>
  Strings are character lists. The built-ins below follow CPython on ASCII text, which is
  what the FMCSA endpoint delivers: \<open>str.strip()\<close>, \<open>str.upper()\<close>, \<open>str.lower()\<close>
  and \<open>int(str)\<close>.
\<close>

definition is_digit :: "char \<Rightarrow> bool" where
  "is_digit c = (CHR ''0'' \<le> c \<and> c \<le> CHR ''9'')"

definition digit_val :: "char \<Rightarrow> nat" where
  "digit_val c = of_char c - 48"

text \<open>\<open>str.isspace\<close> on the code points below 256.\<close>

definition py_isspace :: "char \<Rightarrow> bool" where
  "py_isspace c = ((of_char c :: nat) \<in> {9, 10, 11, 12, 13, 28, 29, 30, 31, 32, 133, 160})"

definition py_strip :: "string \<Rightarrow> string" where
  "py_strip s = rev (dropWhile py_isspace (rev (dropWhile py_isspace s)))"

definition upper_char :: "char \<Rightarrow> char" where
  "upper_char c =
     (case map_of (zip ''abcdefghijklmnopqrstuvwxyz'' ''ABCDEFGHIJKLMNOPQRSTUVWXYZ'') c of
        None \<Rightarrow> c
      | Some u \<Rightarrow> u)"

definition lower_char :: "char \<Rightarrow> char" where
  "lower_char c =
     (case map_of (zip ''ABCDEFGHIJKLMNOPQRSTUVWXYZ'' ''abcdefghijklmnopqrstuvwxyz'') c of
        None \<Rightarrow> c
      | Some l \<Rightarrow> l)"

definition py_upper :: "string \<Rightarrow> string" where
  "py_upper s = map upper_char s"

definition py_lower :: "string \<Rightarrow> string" where
  "py_lower s = map lower_char s"

text \<open>
  \<open>int(s)\<close> for a string: surrounding whitespace is stripped, one sign is allowed, and
  the digits may be grouped by single underscores. \<open>None\<close> stands for \<open>ValueError\<close>.
  The whitespace \<open>int\<close> strips is that of C's \<open>isspace\<close> and the spaces above code
  point 127; the separators 28 to 31, which \<open>str.strip()\<close> removes, are not part of it.
  A literal of more than 4300 digits is refused
  (\<open>sys.int_info.default_max_str_digits\<close>, CPython 3.11).
\<close>

definition int_isspace :: "char \<Rightarrow> bool" where
  "int_isspace c = ((of_char c :: nat) \<in> {9, 10, 11, 12, 13, 32, 133, 160})"

definition int_strip :: "string \<Rightarrow> string" where
  "int_strip s = rev (dropWhile int_isspace (rev (dropWhile int_isspace s)))"

definition max_str_digits :: nat where
  "max_str_digits = 4300"

fun py_digits :: "string \<Rightarrow> nat \<Rightarrow> nat option" where
  "py_digits [] acc = None"
| "py_digits (c # cs) acc =
     (if \<not> is_digit c then None
      else (case cs of
              [] \<Rightarrow> Some (10 * acc + digit_val c)
            | x # xs \<Rightarrow>
                if x = CHR ''_'' then py_digits xs (10 * acc + digit_val c)
                else py_digits cs (10 * acc + digit_val c)))"

definition py_int_of_str :: "string \<Rightarrow> int option" where
  "py_int_of_str s =
     (if max_str_digits < length (filter is_digit s) then None
      else (case int_strip s of
              [] \<Rightarrow> None
            | c # cs \<Rightarrow>
                if c = CHR ''-'' then map_option (\<lambda>n. - int n) (py_digits cs 0)
                else if c = CHR ''+'' then map_option int (py_digits cs 0)
                else map_option int (py_digits (c # cs) 0)))"

section \<open>Paginated source client: \<open>FMCSAClient.fetch_batch\<close>\<close>

text \<open>
  One HTTP request per attempt. The outcome of the request made by attempt \<open>i\<close> is given
  by the environment: a timeout, some other exception of the transport, or a response
  with its status code, its \<open>Retry-After\<close> header (if any) and its decoded JSON body
  (\<open>None\<close> when \<open>response.json()\<close> raises).
\<close>

datatype 'r response =
    TimeoutException
  | OtherException
  | Response nat "string option" "'r list option"

datatype fetch_error =
    HTTPStatusError nat
  | UnexpectedError
  | FetchFailed

record client =
  max_retries :: nat
  retry_delay :: rat
  retry_backoff :: rat

record client_stats =
  total_requests :: nat
  total_records :: nat
  failed_requests :: nat
  slept :: "rat list"

definition default_client :: client where
  "default_client = \<lparr> max_retries = 3, retry_delay = 1, retry_backoff = 2 \<rparr>"

definition stats0 :: client_stats where
  "stats0 = \<lparr> total_requests = 0, total_records = 0, failed_requests = 0, slept = [] \<rparr>"

definition sleep :: "rat \<Rightarrow> client_stats \<Rightarrow> client_stats" where
  "sleep d st = st\<lparr> slept := slept st @ [d] \<rparr>"

definition fail_request :: "client_stats \<Rightarrow> client_stats" where
  "fail_request st = st\<lparr> failed_requests := Suc (failed_requests st) \<rparr>"

text \<open>\<open>int(response.headers.get("Retry-After", 60))\<close>; \<open>None\<close> is \<open>ValueError\<close>.\<close>

definition retry_after_of :: "string option \<Rightarrow> int option" where
  "retry_after_of h = (case h of None \<Rightarrow> Some 60 | Some s \<Rightarrow> py_int_of_str s)"

text \<open>
  The code at the bottom of the loop body: sleep
  \<open>retry_delay * retry_backoff ** attempt\<close> unless this was the last attempt.
\<close>

definition backoff :: "client \<Rightarrow> nat \<Rightarrow> client_stats \<Rightarrow> client_stats" where
  "backoff c attempt st =
     (if int attempt < int (max_retries c) - 1
      then sleep (retry_delay c * retry_backoff c ^ attempt) st
      else st)"

text \<open>
  The loop \<open>for attempt in range(self.max_retries)\<close>, with the statement after it
  (count a failed request and raise) as its exit.
\<close>

function fetch_loop ::
  "client \<Rightarrow> (nat \<Rightarrow> 'r response) \<Rightarrow> nat \<Rightarrow> client_stats \<Rightarrow> (fetch_error + 'r list) \<times> client_stats"
where
  "fetch_loop c resp attempt st =
     (if attempt < max_retries c then
        (case resp attempt of
           TimeoutException \<Rightarrow> fetch_loop c resp (Suc attempt) (backoff c attempt st)
         | OtherException \<Rightarrow>
             (if int attempt = int (max_retries c) - 1 then (Inl UnexpectedError, fail_request st)
              else fetch_loop c resp (Suc attempt) (backoff c attempt (fail_request st)))
         | Response status hdr body \<Rightarrow>
             (if status = 429 then
                (case retry_after_of hdr of
                   Some n \<Rightarrow> fetch_loop c resp (Suc attempt) (sleep (of_int n) st)
                 | None \<Rightarrow>
                     (if int attempt = int (max_retries c) - 1
                      then (Inl UnexpectedError, fail_request st)
                      else fetch_loop c resp (Suc attempt) (backoff c attempt (fail_request st))))
              else if 200 \<le> status \<and> status < 300 then
                (case body of
                   Some data \<Rightarrow>
                     (Inr data, st\<lparr> total_requests := Suc (total_requests st),
                                    total_records := total_records st + length data \<rparr>)
                 | None \<Rightarrow>
                     (if int attempt = int (max_retries c) - 1
                      then (Inl UnexpectedError,
                            fail_request (st\<lparr> total_requests := Suc (total_requests st) \<rparr>))
                      else fetch_loop c resp (Suc attempt)
                             (backoff c attempt
                                (fail_request (st\<lparr> total_requests := Suc (total_requests st) \<rparr>)))))
              else if 500 \<le> status then fetch_loop c resp (Suc attempt) (backoff c attempt st)
              else (Inl (HTTPStatusError status), fail_request st)))
      else (Inl FetchFailed, fail_request st))"
  by pat_completeness auto
termination
  by (relation "measure (\<lambda>(c, resp, attempt, st). max_retries c - attempt)") auto

declare fetch_loop.simps [simp del]

definition fetch_batch ::
  "client \<Rightarrow> (nat \<Rightarrow> 'r response) \<Rightarrow> client_stats \<Rightarrow> (fetch_error + 'r list) \<times> client_stats"
where
  "fetch_batch c resp st = fetch_loop c resp 0 st"

text \<open>A transient failure: a timeout, or a response with a 5xx status.\<close>

fun transient :: "'r response \<Rightarrow> bool" where
  "transient TimeoutException = True"
| "transient OtherException = False"
| "transient (Response status hdr body) = (500 \<le> status)"

definition success_with :: "'r list \<Rightarrow> 'r response \<Rightarrow> bool" where
  "success_with d r = (\<exists>status hdr. r = Response status hdr (Some d) \<and> 200 \<le> status \<and> status < 300)"

text \<open>A rate-limit response whose wait hint reads as \<open>n\<close> seconds (60 when the header is absent).\<close>

definition rate_limited :: "int \<Rightarrow> 'r response \<Rightarrow> bool" where
  "rate_limited n r = (\<exists>hdr body. r = Response 429 hdr body \<and> retry_after_of hdr = Some n)"

section \<open>Raw records and normalized values\<close>

text \<open>
  A raw record is the JSON object the source returns for one carrier: an ordered
  dictionary with distinct string keys whose values are JSON scalars (null, booleans,
  integers, strings). Its integers are those \<open>json.loads\<close> delivers, of at most 4300
  digits, so that \<open>str\<close> of them does not fail. Normalized values add what
  \<open>_clean_value\<close> produces: decimals, dates and the list of cargo tags.
\<close>

datatype jval = JNull | JBool bool | JInt int | JStr string

type_synonym raw_record = "(string \<times> jval) list"

text \<open>A \<open>decimal.Decimal\<close>: sign, coefficient and exponent, or a special value.\<close>

datatype decimal = Finite bool nat int | Infinity bool | NaN bool bool nat

datatype pyval =
    PNone
  | PBool bool
  | PInt int
  | PStr string
  | PDecimal decimal
  | PDate nat nat nat
  | PList "string list"

type_synonym norm_record = "(string \<times> pyval) list"

datatype exn =
    ValueError
  | TypeError
  | InvalidOperation
  | IndexError
  | UniqueViolationError
  | NotNullViolationError
  | CardinalityViolationError

text \<open>\<open>d[k] = v\<close> on an insertion-ordered dictionary.\<close>

fun dict_set :: "('k \<times> 'v) list \<Rightarrow> 'k \<Rightarrow> 'v \<Rightarrow> ('k \<times> 'v) list" where
  "dict_set [] k v = [(k, v)]"
| "dict_set ((k', v') # d) k v = (if k' = k then (k, v) # d else (k', v') # dict_set d k v)"

definition dict_has :: "('k \<times> 'v) list \<Rightarrow> 'k \<Rightarrow> bool" where
  "dict_has d k = (case map_of d k of None \<Rightarrow> False | Some v \<Rightarrow> True)"

text \<open>Truth value testing (\<open>if value\<close>, \<open>bool(value)\<close>).\<close>

fun truthy :: "jval \<Rightarrow> bool" where
  "truthy JNull = False"
| "truthy (JBool b) = b"
| "truthy (JInt n) = (n \<noteq> 0)"
| "truthy (JStr s) = (s \<noteq> [])"

fun py_truthy :: "pyval \<Rightarrow> bool" where
  "py_truthy PNone = False"
| "py_truthy (PBool b) = b"
| "py_truthy (PInt n) = (n \<noteq> 0)"
| "py_truthy (PStr s) = (s \<noteq> [])"
| "py_truthy (PDecimal (Finite sg co ex)) = (co \<noteq> 0)"
| "py_truthy (PDecimal d) = True"
| "py_truthy (PDate y m d) = True"
| "py_truthy (PList xs) = (xs \<noteq> [])"

text \<open>\<open>str(n)\<close> for integers, and \<open>str(value)\<close> for JSON scalars.\<close>

fun str_of_nat :: "nat \<Rightarrow> string" where
  "str_of_nat n =
     (if n < 10 then [''0123456789'' ! n]
      else str_of_nat (n div 10) @ [''0123456789'' ! (n mod 10)])"

declare str_of_nat.simps [simp del]

definition str_of_int :: "int \<Rightarrow> string" where
  "str_of_int i = (if i < 0 then CHR ''-'' # str_of_nat (nat (- i)) else str_of_nat (nat i))"

fun py_str :: "jval \<Rightarrow> string" where
  "py_str JNull = ''None''"
| "py_str (JBool b) = (if b then ''True'' else ''False'')"
| "py_str (JInt n) = str_of_int n"
| "py_str (JStr s) = s"

text \<open>
  \<open>int(value)\<close>: \<open>Inl ValueError\<close> for a string that is no integer literal,
  \<open>Inl TypeError\<close> for \<open>None\<close>.
\<close>

fun py_int :: "jval \<Rightarrow> exn + int" where
  "py_int JNull = Inl TypeError"
| "py_int (JBool b) = Inr (if b then 1 else 0)"
| "py_int (JInt n) = Inr n"
| "py_int (JStr s) = (case py_int_of_str s of None \<Rightarrow> Inl ValueError | Some n \<Rightarrow> Inr n)"

subsection \<open>\<open>json.dumps\<close> of a raw record\<close>

text \<open>
  The default encoder: \<open>", "\<close> between items, \<open>": "\<close> after a key, and
  \<open>ensure_ascii\<close>, which leaves the printable ASCII characters other than the quote
  and the backslash as they are and escapes every other character.
\<close>

definition hex_digit :: "nat \<Rightarrow> char" where
  "hex_digit n = ''0123456789abcdef'' ! n"

definition json_escape_char :: "char \<Rightarrow> string" where
  "json_escape_char c =
     (if c = CHR 0x5C then [CHR 0x5C, CHR 0x5C]
      else if c = CHR 0x22 then [CHR 0x5C, CHR 0x22]
      else if c = CHR 0x08 then [CHR 0x5C, CHR ''b'']
      else if c = CHR 0x0C then [CHR 0x5C, CHR ''f'']
      else if c = CHR 0x0A then [CHR 0x5C, CHR ''n'']
      else if c = CHR 0x0D then [CHR 0x5C, CHR ''r'']
      else if c = CHR 0x09 then [CHR 0x5C, CHR ''t'']
      else if CHR '' '' \<le> c \<and> c \<le> CHR ''~'' then [c]
      else [CHR 0x5C, CHR ''u'', CHR ''0'', CHR ''0'',
            hex_digit (of_char c div 16), hex_digit (of_char c mod 16)])"

definition json_string :: "string \<Rightarrow> string" where
  "json_string s = CHR 0x22 # concat (map json_escape_char s) @ [CHR 0x22]"

fun json_value :: "jval \<Rightarrow> string" where
  "json_value JNull = ''null''"
| "json_value (JBool b) = (if b then ''true'' else ''false'')"
| "json_value (JInt n) = str_of_int n"
| "json_value (JStr s) = json_string s"

definition json_item :: "string \<times> jval \<Rightarrow> string" where
  "json_item kv = json_string (fst kv) @ '': '' @ json_value (snd kv)"

fun join :: "string \<Rightarrow> string list \<Rightarrow> string" where
  "join sep [] = []"
| "join sep [x] = x"
| "join sep (x # y # xs) = x @ sep @ join sep (y # xs)"

definition json_dumps :: "raw_record \<Rightarrow> string" where
  "json_dumps r = ''{'' @ join '', '' (map json_item r) @ ''}''"

subsection \<open>\<open>Decimal(str)\<close>\<close>

text \<open>
  The numeric strings of the \<open>decimal\<close> module: surrounding whitespace and underscores
  are removed; then an optional sign and either digits with an optional fraction and an
  optional exponent (at least one digit before the exponent), or \<open>Inf\<close>/\<open>Infinity\<close>,
  or \<open>NaN\<close>/\<open>sNaN\<close> with optional diagnostic digits, letters in either case. Any
  other string makes the constructor raise \<open>decimal.InvalidOperation\<close>, which derives
  from \<open>ArithmeticError\<close>, not from \<open>ValueError\<close>.

  The constructor converts exactly, within the largest context of the C implementation
  (\<open>libmpdec\<close>, 64 bit): a number that does not fit it raises \<open>InvalidOperation\<close> as
  well. With the leading zeros of the coefficient left out, the exponent of the last
  digit may not be below \<open>MIN_ETINY\<close>, the exponent of the first digit (of a zero: its
  exponent) may not be above \<open>MAX_EMAX\<close>, neither the digits nor the fraction may be
  longer than \<open>MAX_PREC\<close>, and the exponent as written has to fit a signed 64-bit
  integer.
\<close>

definition MAX_EMAX :: int where
  "MAX_EMAX = 999999999999999999"

definition MIN_ETINY :: int where
  "MIN_ETINY = - 1999999999999999997"

definition MAX_PREC :: nat where
  "MAX_PREC = 999999999999999999"

definition nat_of_digits :: "string \<Rightarrow> nat" where
  "nat_of_digits s = foldl (\<lambda>acc c. 10 * acc + digit_val c) 0 s"

definition dec_exponent_digits :: "string \<Rightarrow> int option" where
  "dec_exponent_digits s =
     (case s of
        [] \<Rightarrow> None
      | c # cs \<Rightarrow>
          if c = CHR ''-'' then
            (if cs \<noteq> [] \<and> list_all is_digit cs then Some (- int (nat_of_digits cs)) else None)
          else if c = CHR ''+'' then
            (if cs \<noteq> [] \<and> list_all is_digit cs then Some (int (nat_of_digits cs)) else None)
          else if list_all is_digit (c # cs) then Some (int (nat_of_digits (c # cs)))
          else None)"

definition dec_exponent :: "string \<Rightarrow> int option" where
  "dec_exponent s =
     (case dec_exponent_digits s of
        None \<Rightarrow> None
      | Some x \<Rightarrow>
          if x < - 9223372036854775808 \<or> 9223372036854775807 < x then None else Some x)"

text \<open>
  The finite number with the digits \<open>ds\<close>, the last \<open>f\<close> of them after the point, and
  the written exponent \<open>x\<close>, when it fits.
\<close>

definition dec_finite :: "string \<Rightarrow> int \<Rightarrow> nat \<Rightarrow> (nat \<times> int) option" where
  "dec_finite ds x f =
     (let sig = dropWhile (\<lambda>c. c = CHR ''0'') ds;
          ex = x - int f
      in if MAX_PREC < f \<or> MAX_PREC < length sig then None
         else if ex < MIN_ETINY then None
         else if MAX_EMAX < (if sig = [] then ex else ex + int (length sig) - 1) then None
         else Some (nat_of_digits ds, ex))"

definition dec_number :: "string \<Rightarrow> (nat \<times> int) option" where
  "dec_number s =
     (let ip = takeWhile is_digit s;
          r1 = dropWhile is_digit s;
          fp = (case r1 of [] \<Rightarrow> [] | c # r \<Rightarrow> if c = CHR ''.'' then takeWhile is_digit r else []);
          r2 = (case r1 of [] \<Rightarrow> [] | c # r \<Rightarrow> if c = CHR ''.'' then dropWhile is_digit r else r1)
      in if ip = [] \<and> fp = [] then None
         else (case r2 of
                 [] \<Rightarrow> dec_finite (ip @ fp) 0 (length fp)
               | e # r \<Rightarrow>
                   if e = CHR ''e'' \<or> e = CHR ''E'' then
                     (case dec_exponent r of
                        None \<Rightarrow> None
                      | Some x \<Rightarrow> dec_finite (ip @ fp) x (length fp))
                   else None))"

definition dec_unsigned :: "bool \<Rightarrow> string \<Rightarrow> decimal option" where
  "dec_unsigned sg s =
     (let l = py_lower s in
      if l = ''inf'' \<or> l = ''infinity'' then Some (Infinity sg)
      else if take 3 l = ''nan'' \<and> list_all is_digit (drop 3 l)
        then Some (NaN sg False (nat_of_digits (drop 3 l)))
      else if take 4 l = ''snan'' \<and> list_all is_digit (drop 4 l)
        then Some (NaN sg True (nat_of_digits (drop 4 l)))
      else (case dec_number s of None \<Rightarrow> None | Some (co, ex) \<Rightarrow> Some (Finite sg co ex)))"

definition decimal_of_str :: "string \<Rightarrow> decimal option" where
  "decimal_of_str s =
     (case filter (\<lambda>c. c \<noteq> CHR ''_'') (py_strip s) of
        [] \<Rightarrow> None
      | c # cs \<Rightarrow>
          if c = CHR ''-'' then dec_unsigned True cs
          else if c = CHR ''+'' then dec_unsigned False cs
          else dec_unsigned False (c # cs))"

text \<open>\<open>Decimal(value)\<close> for a JSON scalar.\<close>

fun py_decimal :: "jval \<Rightarrow> exn + decimal" where
  "py_decimal JNull = Inl TypeError"
| "py_decimal (JBool b) = Inr (Finite False (if b then 1 else 0) 0)"
| "py_decimal (JInt n) = Inr (Finite (n < 0) (nat \<bar>n\<bar>) 0)"
| "py_decimal (JStr s) =
     (case decimal_of_str s of None \<Rightarrow> Inl InvalidOperation | Some d \<Rightarrow> Inr d)"

subsection \<open>\<open>datetime.strptime\<close> for the formats of \<open>_parse_date\<close>\<close>

text \<open>
  \<open>strptime\<close> compiles the format into a regular expression, takes its first match at
  the start of the string (alternatives in the order written, letters in either case)
  and raises \<open>ValueError\<close> when there is none or when input remains after it. The
  values then have to make a date and a time of day. \<open>alts\<close> lists, for one directive,
  the matches of its expression in that order, each with the rest of the input.
\<close>

datatype directive = Lit char | Year | Month | Day | Hour | Minute | Second | Micro

definition in_range :: "char \<Rightarrow> char \<Rightarrow> char \<Rightarrow> bool" where
  "in_range lo hi c = (lo \<le> c \<and> c \<le> hi)"

fun two :: "(char \<Rightarrow> bool) \<Rightarrow> (char \<Rightarrow> bool) \<Rightarrow> string \<Rightarrow> (nat \<times> string) list" where
  "two p q (a # b # s) =
     (if p a \<and> q b then [((if is_digit a then 10 * digit_val a else 0) + digit_val b, s)] else [])"
| "two p q s = []"

fun one :: "(char \<Rightarrow> bool) \<Rightarrow> string \<Rightarrow> (nat \<times> string) list" where
  "one p (a # s) = (if p a then [(digit_val a, s)] else [])"
| "one p [] = []"

definition digits_n :: "nat \<Rightarrow> string \<Rightarrow> (nat \<times> string) list" where
  "digits_n n s =
     (if n \<le> length s \<and> list_all is_digit (take n s)
      then [(nat_of_digits (take n s), drop n s)] else [])"

fun alts :: "directive \<Rightarrow> string \<Rightarrow> (nat \<times> string) list" where
  "alts (Lit c) s =
     (case s of [] \<Rightarrow> [] | a # r \<Rightarrow> if lower_char a = lower_char c then [(0, r)] else [])"
| "alts Year s = digits_n 4 s"
| "alts Month s =
     two ((=) CHR ''1'') (in_range CHR ''0'' CHR ''2'') s
     @ two ((=) CHR ''0'') (in_range CHR ''1'' CHR ''9'') s
     @ one (in_range CHR ''1'' CHR ''9'') s"
| "alts Day s =
     two ((=) CHR ''3'') (in_range CHR ''0'' CHR ''1'') s
     @ two (in_range CHR ''1'' CHR ''2'') is_digit s
     @ two ((=) CHR ''0'') (in_range CHR ''1'' CHR ''9'') s
     @ one (in_range CHR ''1'' CHR ''9'') s
     @ two ((=) CHR '' '') (in_range CHR ''1'' CHR ''9'') s"
| "alts Hour s =
     two ((=) CHR ''2'') (in_range CHR ''0'' CHR ''3'') s
     @ two (in_range CHR ''0'' CHR ''1'') is_digit s
     @ one is_digit s"
| "alts Minute s = two (in_range CHR ''0'' CHR ''5'') is_digit s @ one is_digit s"
| "alts Second s =
     two ((=) CHR ''6'') (in_range CHR ''0'' CHR ''1'') s
     @ two (in_range CHR ''0'' CHR ''5'') is_digit s
     @ one is_digit s"
| "alts Micro s =
     concat (map (\<lambda>n. map (\<lambda>(v, r). (v * 10 ^ (6 - n), r)) (digits_n n s)) [6, 5, 4, 3, 2, 1])"

fun match_prefix :: "directive list \<Rightarrow> string \<Rightarrow> ((directive \<times> nat) list \<times> string) list" where
  "match_prefix [] s = [([], s)]"
| "match_prefix (d # ds) s =
     concat (map (\<lambda>vr. map (\<lambda>wr. ((d, fst vr) # fst wr, snd wr)) (match_prefix ds (snd vr)))
                 (alts d s))"

definition leap :: "nat \<Rightarrow> bool" where
  "leap y = (if y mod 400 = 0 then True else if y mod 100 = 0 then False else y mod 4 = 0)"

definition days_in_month :: "nat \<Rightarrow> nat \<Rightarrow> nat" where
  "days_in_month y m =
     (if m = 2 then (if leap y then 29 else 28)
      else if m = 4 \<or> m = 6 \<or> m = 9 \<or> m = 11 then 30 else 31)"

definition field :: "(directive \<times> nat) list \<Rightarrow> directive \<Rightarrow> nat \<Rightarrow> nat" where
  "field vs d dflt = (case map_of vs d of None \<Rightarrow> dflt | Some v \<Rightarrow> v)"

text \<open>
  \<open>datetime.strptime(s, fmt).date()\<close>; \<open>None\<close> is \<open>ValueError\<close>. Fields the format
  lacks default to 1900-01-01 00:00:00.
\<close>

definition strptime_date :: "string \<Rightarrow> directive list \<Rightarrow> (nat \<times> nat \<times> nat) option" where
  "strptime_date s fmt =
     (case match_prefix fmt s of
        [] \<Rightarrow> None
      | (vs, rest) # others \<Rightarrow>
          if rest \<noteq> [] then None
          else (let y = field vs Year 1900; m = field vs Month 1; d = field vs Day 1
                in if 1 \<le> y \<and> y \<le> 9999 \<and> 1 \<le> m \<and> m \<le> 12 \<and> 1 \<le> d \<and> d \<le> days_in_month y m
                      \<and> field vs Hour 0 \<le> 23 \<and> field vs Minute 0 \<le> 59 \<and> field vs Second 0 \<le> 59
                   then Some (y, m, d) else None))"

definition date_formats :: "directive list list" where
  "date_formats =
     [ [Year, Lit CHR ''-'', Month, Lit CHR ''-'', Day, Lit CHR ''T'',
        Hour, Lit CHR '':'', Minute, Lit CHR '':'', Second, Lit CHR ''.'', Micro],
       [Year, Lit CHR ''-'', Month, Lit CHR ''-'', Day, Lit CHR ''T'',
        Hour, Lit CHR '':'', Minute, Lit CHR '':'', Second],
       [Year, Lit CHR ''-'', Month, Lit CHR ''-'', Day],
       [Month, Lit CHR ''/'', Day, Lit CHR ''/'', Year],
       [Month, Lit CHR ''-'', Day, Lit CHR ''-'', Year] ]"

fun try_formats :: "directive list list \<Rightarrow> string \<Rightarrow> pyval" where
  "try_formats [] s = PNone"
| "try_formats (fmt # fmts) s =
     (case strptime_date s fmt of
        Some (y, m, d) \<Rightarrow> PDate y m d
      | None \<Rightarrow> try_formats fmts s)"

section \<open>Record normalizer: \<open>CarrierDataNormalizer\<close>\<close>

definition parse_date :: "jval \<Rightarrow> pyval" where
  "parse_date date_value =
     (if \<not> truthy date_value then PNone
      else (case date_value of
              JStr s \<Rightarrow> try_formats date_formats s
            | JNull \<Rightarrow> PNone | JBool b \<Rightarrow> PNone | JInt n \<Rightarrow> PNone))"

text \<open>The regular expressions of \<open>_clean_value\<close>.\<close>

definition state_ok :: "string \<Rightarrow> bool" where
  "state_ok st = (length st = 2 \<and> list_all (in_range CHR ''A'' CHR ''Z'') st)"

definition zip_ok :: "string \<Rightarrow> bool" where
  "zip_ok z =
     (if length z = 5 then list_all is_digit z
      else length z = 10 \<and> list_all is_digit (take 5 z) \<and> z ! 5 = CHR ''-''
           \<and> list_all is_digit (drop 6 z))"

definition phone_char :: "char \<Rightarrow> bool" where
  "phone_char c = (is_digit c \<or> py_isspace c \<or> c \<in> set ''-()+'')"

definition ends_with :: "string \<Rightarrow> string \<Rightarrow> bool" where
  "ends_with s suffix = (length suffix \<le> length s \<and> drop (length s - length suffix) s = suffix)"

text \<open>
  \<open>_clean_value\<close>. The first block strips a string and maps the empty string and the
  spellings of "no value" to \<open>None\<close>; then the field name selects the coercion, in the
  order of the \<open>if\<close>/\<open>elif\<close> chain. The integer and decimal branches run inside
  \<open>try ... except (ValueError, TypeError): return None\<close>: any other exception leaves
  the function.
\<close>

definition strip_value :: "jval \<Rightarrow> jval" where
  "strip_value value = (case value of JStr s \<Rightarrow> JStr (py_strip s) | JNull \<Rightarrow> JNull
     | JBool b \<Rightarrow> JBool b | JInt n \<Rightarrow> JInt n)"

definition is_null_text :: "jval \<Rightarrow> bool" where
  "is_null_text value =
     (case value of
        JStr s \<Rightarrow> s = [] \<or> py_upper s \<in> set [''NULL'', ''NONE'', ''N/A'']
      | JNull \<Rightarrow> False | JBool b \<Rightarrow> False | JInt n \<Rightarrow> False)"

definition except_value_type :: "exn + pyval \<Rightarrow> exn + pyval" where
  "except_value_type r =
     (case r of
        Inr v \<Rightarrow> Inr v
      | Inl e \<Rightarrow> if e = ValueError \<or> e = TypeError then Inr PNone else Inl e)"

definition strip_currency :: "jval \<Rightarrow> jval" where
  "strip_currency value =
     (case value of
        JStr s \<Rightarrow> JStr (filter (\<lambda>c. c \<noteq> CHR ''$'' \<and> c \<noteq> CHR '','') s)
      | JNull \<Rightarrow> JNull | JBool b \<Rightarrow> JBool b | JInt n \<Rightarrow> JInt n)"

definition clean_value :: "string \<Rightarrow> jval \<Rightarrow> exn + pyval" where
  "clean_value field_name value0 =
     (if value0 = JNull then Inr PNone
      else let value = strip_value value0 in
      if is_null_text value then Inr PNone
      else if field_name \<in> set [''usdot_number'', ''power_units'', ''drivers'', ''mcs_150_mileage''] then
        except_value_type
          (if truthy value then map_sum id PInt (py_int value) else Inr PNone)
      else if field_name \<in> set [''liability_insurance_amount'', ''cargo_insurance_amount'',
                               ''bond_insurance_amount''] then
        except_value_type
          (let value = strip_currency value in
           if truthy value then map_sum id PDecimal (py_decimal value) else Inr PNone)
      else if ends_with field_name ''_date'' then Inr (parse_date value)
      else if field_name \<in> set [''hazmat_flag'', ''hazmat_placardable''] then
        (case value of
           JStr s \<Rightarrow> Inr (PBool (py_upper s \<in> set [''Y'', ''YES'', ''TRUE'', ''1'']))
         | JNull \<Rightarrow> Inr (PBool False) | JBool b \<Rightarrow> Inr (PBool b) | JInt n \<Rightarrow> Inr (PBool (n \<noteq> 0)))
      else if field_name \<in> set [''physical_state'', ''mailing_state''] then
        (case value of
           JStr s \<Rightarrow> if state_ok (take 2 (py_upper s)) then Inr (PStr (take 2 (py_upper s))) else Inr PNone
         | JNull \<Rightarrow> Inr PNone | JBool b \<Rightarrow> Inr PNone | JInt n \<Rightarrow> Inr PNone)
      else if field_name \<in> set [''physical_zip'', ''mailing_zip''] then
        (case value of
           JStr s \<Rightarrow>
             (let zip_code = filter (\<lambda>c. is_digit c \<or> c = CHR ''-'') s
              in if zip_ok zip_code then Inr (PStr zip_code) else Inr PNone)
         | JNull \<Rightarrow> Inr PNone | JBool b \<Rightarrow> Inr PNone | JInt n \<Rightarrow> Inr PNone)
      else if field_name = ''telephone'' \<or> field_name = ''fax'' then
        (case value of
           JStr s \<Rightarrow>
             (let phone = filter phone_char s
              in if phone \<noteq> [] \<and> 10 \<le> length phone then Inr (PStr (take 20 phone)) else Inr PNone)
         | JNull \<Rightarrow> Inr PNone | JBool b \<Rightarrow> Inr PNone | JInt n \<Rightarrow> Inr PNone)
      else if field_name = ''email'' then
        (case value of
           JStr s \<Rightarrow>
             (let email = py_lower s
              in if CHR ''@'' \<in> set email \<and> CHR ''.'' \<in> set email then Inr (PStr (take 255 email))
                 else Inr PNone)
         | JNull \<Rightarrow> Inr PNone | JBool b \<Rightarrow> Inr PNone | JInt n \<Rightarrow> Inr PNone)
      else if truthy value then Inr (PStr (py_str value)) else Inr PNone)"

definition FIELD_MAPPING :: "(string \<times> string) list" where
  "FIELD_MAPPING =
     [ (''usdot_number'', ''usdot_number''),
       (''legal_name'', ''legal_name''),
       (''dba_name'', ''dba_name''),
       (''phy_street'', ''physical_address''),
       (''phy_city'', ''physical_city''),
       (''phy_state'', ''physical_state''),
       (''phy_zip'', ''physical_zip''),
       (''phy_country'', ''physical_country''),
       (''mailing_street'', ''mailing_address''),
       (''mailing_city'', ''mailing_city''),
       (''mailing_state'', ''mailing_state''),
       (''mailing_zip'', ''mailing_zip''),
       (''telephone'', ''telephone''),
       (''fax'', ''fax''),
       (''email_address'', ''email''),
       (''mcs_150_date'', ''mcs_150_date''),
       (''mcs_150_mileage_year'', ''mcs_150_mileage''),
       (''entity_type'', ''entity_type''),
       (''operating_status'', ''operating_status''),
       (''out_of_service_date'', ''out_of_service_date''),
       (''power_units'', ''power_units''),
       (''drivers'', ''drivers''),
       (''carrier_operation'', ''carrier_operation''),
       (''hazmat_flag'', ''hazmat_flag''),
       (''pc_flag'', ''hazmat_placardable''),
       (''safety_rating'', ''safety_rating''),
       (''safety_rating_date'', ''safety_rating_date''),
       (''safety_review_date'', ''safety_review_date''),
       (''liability_required_amount'', ''liability_insurance_amount''),
       (''liability_insurance_on_file_date'', ''liability_insurance_date''),
       (''cargo_required_amount'', ''cargo_insurance_amount''),
       (''cargo_insurance_on_file_date'', ''cargo_insurance_date''),
       (''bond_insurance_required_amount'', ''bond_insurance_amount''),
       (''bond_insurance_on_file_date'', ''bond_insurance_date'') ]"

text \<open>The loop over \<open>FIELD_MAPPING.items()\<close>; an exception of \<open>_clean_value\<close> ends it.\<close>

fun map_fields :: "(string \<times> string) list \<Rightarrow> raw_record \<Rightarrow> norm_record \<Rightarrow> exn + norm_record" where
  "map_fields [] fmcsa_record normalized = Inr normalized"
| "map_fields ((fmcsa_field, db_field) # rest) fmcsa_record normalized =
     (case map_of fmcsa_record fmcsa_field of
        None \<Rightarrow> map_fields rest fmcsa_record normalized
      | Some value \<Rightarrow>
          if value \<noteq> JNull \<and> value \<noteq> JStr [] then
            (case clean_value db_field value of
               Inl e \<Rightarrow> Inl e
             | Inr v \<Rightarrow> map_fields rest fmcsa_record (dict_set normalized db_field v))
          else map_fields rest fmcsa_record normalized)"

definition cargo_fields :: "string list" where
  "cargo_fields =
     [''cargo_carried_1'', ''cargo_carried_2'', ''cargo_carried_3'', ''cargo_carried_4'',
      ''cargo_carried_5'', ''cargo_carried_6'', ''cargo_carried_7'', ''cargo_carried_8'']"

fun cargo_types :: "string list \<Rightarrow> raw_record \<Rightarrow> string list" where
  "cargo_types [] record = []"
| "cargo_types (f # fs) record =
     (case map_of record f of
        None \<Rightarrow> cargo_types fs record
      | Some v \<Rightarrow>
          if truthy v then
            (let cargo = py_strip (py_str v)
             in if cargo \<noteq> [] \<and> py_upper cargo \<notin> set [''NULL'', ''NONE'', ''N/A'']
                then cargo # cargo_types fs record
                else cargo_types fs record)
          else cargo_types fs record)"

definition extract_cargo_carried :: "raw_record \<Rightarrow> string list option" where
  "extract_cargo_carried record =
     (let cs = cargo_types cargo_fields record in if cs \<noteq> [] then Some cs else None)"

text \<open>\<open>str\<close> of the normalized natural key, which is an integer or \<open>None\<close>.\<close>

fun str_of_key :: "pyval option \<Rightarrow> string" where
  "str_of_key None = ''N/A''"
| "str_of_key (Some (PInt n)) = str_of_int n"
| "str_of_key (Some PNone) = ''None''"
| "str_of_key (Some v) = []"

definition normalize :: "raw_record \<Rightarrow> exn + norm_record" where
  "normalize fmcsa_record =
     (case map_fields FIELD_MAPPING fmcsa_record [] of
        Inl e \<Rightarrow> Inl e
      | Inr mapped \<Rightarrow>
          (let with_cargo =
                 (case extract_cargo_carried fmcsa_record of
                    None \<Rightarrow> mapped
                  | Some cs \<Rightarrow> dict_set mapped ''cargo_carried'' (PList cs))
           in if \<not> dict_has with_cargo ''usdot_number'' then Inl ValueError
              else
                (let named =
                       (if (case map_of with_cargo ''legal_name'' of
                              None \<Rightarrow> True
                            | Some v \<Rightarrow> \<not> py_truthy v)
                        then dict_set with_cargo ''legal_name''
                               (PStr (''Unknown Carrier #''
                                      @ str_of_key (map_of with_cargo ''usdot_number'')))
                        else with_cargo)
                 in Inr (dict_set named ''raw_data'' (PStr (json_dumps fmcsa_record))))))"

section \<open>Notions used in the statements about the normalizer\<close>

text \<open>
  The natural key counts as present when the raw record has \<open>usdot_number\<close> with a
  value other than \<open>None\<close> and the empty string: the test of the mapping loop.
\<close>

definition wanted :: "raw_record \<Rightarrow> string \<Rightarrow> bool" where
  "wanted r f = (case map_of r f of None \<Rightarrow> False | Some v \<Rightarrow> v \<noteq> JNull \<and> v \<noteq> JStr [])"

definition key_present :: "raw_record \<Rightarrow> bool" where
  "key_present r =
     (case map_of r ''usdot_number'' of None \<Rightarrow> False | Some v \<Rightarrow> v \<noteq> JNull \<and> v \<noteq> JStr [])"

text \<open>
  The natural key is an integer when \<open>usdot_number\<close> holds an integer other than 0,
  or a string that \<open>int\<close> accepts once it is stripped.
\<close>

definition key_integer :: "raw_record \<Rightarrow> int option" where
  "key_integer r =
     (case map_of r ''usdot_number'' of
        None \<Rightarrow> None
      | Some v \<Rightarrow>
          (case v of
             JInt k \<Rightarrow> if k = 0 then None else Some k
           | JStr s \<Rightarrow> py_int_of_str (py_strip s)
           | JNull \<Rightarrow> None
           | JBool b \<Rightarrow> None))"

text \<open>
  A monetary amount is well formed when it is not a string, or a string that is blank,
  spells "no value", or reads as a decimal once \<open>$\<close> and \<open>,\<close> are removed.
\<close>

definition amount_db_fields :: "string list" where
  "amount_db_fields =
     [''liability_insurance_amount'', ''cargo_insurance_amount'', ''bond_insurance_amount'']"

definition amount_raw_fields :: "string list" where
  "amount_raw_fields =
     [''liability_required_amount'', ''cargo_required_amount'', ''bond_insurance_required_amount'']"

definition amount_text_ok :: "string \<Rightarrow> bool" where
  "amount_text_ok s =
     (let t = filter (\<lambda>c. c \<noteq> CHR ''$'' \<and> c \<noteq> CHR '','') (py_strip s)
      in if is_null_text (JStr (py_strip s)) then True
         else if t = [] then True
         else (case decimal_of_str t of None \<Rightarrow> False | Some d \<Rightarrow> True))"

fun amount_ok :: "jval \<Rightarrow> bool" where
  "amount_ok (JStr s) = amount_text_ok s"
| "amount_ok v = True"

definition amounts_ok :: "raw_record \<Rightarrow> bool" where
  "amounts_ok r =
     list_all (\<lambda>f. case map_of r f of None \<Rightarrow> True | Some v \<Rightarrow> amount_ok v) amount_raw_fields"

section \<open>Record store\<close>

text \<open>
  The store is the \<open>carriers\<close> table, keyed by \<open>usdot_number\<close>, reached through an
  asyncpg connection. A row holds the values of \<open>columns\<close> in order. The two write
  operations the loader uses:
  \<^item> \<open>copy_records_to_table\<close> (COPY) appends the rows and checks nothing per row
    beforehand: a key that is already in the table, or twice in the batch, makes the
    whole statement fail with a unique violation;
  \<^item> \<open>execute\<close> of \<open>INSERT ... ON CONFLICT (usdot_number) DO UPDATE SET ...\<close>
    inserts each new key and overwrites the listed columns of an existing one. Its
    result is the command tag of the statement, which for every \<open>INSERT\<close> statement
    is \<open>INSERT 0 n\<close>, \<open>n\<close> counting the rows inserted or updated.
  Both reject a null key. Every call is recorded in \<open>calls\<close>.
\<close>

type_synonym row = "pyval list"

datatype db_call = CopyRecordsToTable "row list" | Execute "row list"

definition columns :: "string list" where
  "columns =
     [''usdot_number'', ''legal_name'', ''dba_name'',
      ''physical_address'', ''physical_city'', ''physical_state'', ''physical_zip'',
      ''physical_country'',
      ''mailing_address'', ''mailing_city'', ''mailing_state'', ''mailing_zip'',
      ''telephone'', ''fax'', ''email'',
      ''mcs_150_date'', ''mcs_150_mileage'', ''entity_type'', ''operating_status'',
      ''out_of_service_date'',
      ''power_units'', ''drivers'', ''carrier_operation'', ''cargo_carried'',
      ''liability_insurance_date'', ''liability_insurance_amount'',
      ''cargo_insurance_date'', ''cargo_insurance_amount'',
      ''bond_insurance_date'', ''bond_insurance_amount'',
      ''hazmat_flag'', ''hazmat_placardable'',
      ''safety_rating'', ''safety_rating_date'', ''safety_review_date'',
      ''raw_data'']"

text \<open>The columns assigned in the \<open>DO UPDATE SET\<close> list that are columns of a row.\<close>

definition updated_columns :: "string list" where
  "updated_columns =
     [''legal_name'', ''dba_name'', ''physical_address'', ''physical_city'', ''physical_state'',
      ''entity_type'', ''operating_status'', ''power_units'', ''drivers'',
      ''liability_insurance_date'', ''liability_insurance_amount'', ''raw_data'']"

text \<open>\<open>[record.get(col) for col in columns]\<close>.\<close>

definition row_of :: "norm_record \<Rightarrow> row" where
  "row_of record = map (\<lambda>col. case map_of record col of None \<Rightarrow> PNone | Some v \<Rightarrow> v) columns"

definition key_of :: "row \<Rightarrow> pyval" where
  "key_of rw = (case rw of [] \<Rightarrow> PNone | k # vs \<Rightarrow> k)"

type_synonym table = "(pyval \<times> row) list"

definition merge_row :: "row \<Rightarrow> row \<Rightarrow> row" where
  "merge_row old new =
     map (\<lambda>(col, (ov, nv)). if col \<in> set updated_columns then nv else ov)
         (zip columns (zip old new))"

fun upsert_row :: "table \<Rightarrow> row \<Rightarrow> table" where
  "upsert_row [] rw = [(key_of rw, rw)]"
| "upsert_row ((k, old) # t) rw =
     (if k = key_of rw then (k, merge_row old rw) # t else (k, old) # upsert_row t rw)"

definition copy_records_to_table :: "row list \<Rightarrow> table \<Rightarrow> exn + table" where
  "copy_records_to_table rows t =
     (if PNone \<in> set (map key_of rows) then Inl NotNullViolationError
      else if \<not> distinct (map key_of rows) \<or> (\<exists>k \<in> set (map key_of rows). k \<in> set (map fst t))
        then Inl UniqueViolationError
      else Inr (t @ map (\<lambda>rw. (key_of rw, rw)) rows))"

definition execute :: "row list \<Rightarrow> table \<Rightarrow> exn + (string \<times> table)" where
  "execute rows t =
     (if PNone \<in> set (map key_of rows) then Inl NotNullViolationError
      else if \<not> distinct (map key_of rows) then Inl CardinalityViolationError
      else Inr (''INSERT 0 '' @ str_of_nat (length rows), foldl upsert_row t rows))"

section \<open>Batch loader and orchestrator: \<open>IngestionPipeline\<close>\<close>

text \<open>
  The pipeline object with its configuration, the \<open>IngestionStats\<close> of the run and the
  store it writes to. Counters are Python integers.
\<close>

record pipeline =
  batch_size :: int
  max_errors :: int
  total_fetched :: int
  total_inserted :: int
  total_updated :: int
  total_errors :: int
  error_records :: "(jval option \<times> exn) list"
  carriers :: table
  calls :: "db_call list"

definition new_pipeline :: "int \<Rightarrow> int \<Rightarrow> table \<Rightarrow> pipeline" where
  "new_pipeline bs me t =
     \<lparr> batch_size = bs, max_errors = me, total_fetched = 0, total_inserted = 0,
       total_updated = 0, total_errors = 0, error_records = [], carriers = t, calls = [] \<rparr>"

text \<open>\<open>str.split()\<close>: the maximal runs of non-whitespace characters.\<close>

fun split_ws :: "string \<Rightarrow> string \<Rightarrow> string list" where
  "split_ws [] cur = (if cur = [] then [] else [cur])"
| "split_ws (c # cs) cur =
     (if py_isspace c then (if cur = [] then split_ws cs [] else cur # split_ws cs [])
      else split_ws cs (cur @ [c]))"

definition py_split :: "string \<Rightarrow> string list" where
  "py_split s = split_ws s []"

text \<open>\<open>parts[i]\<close> and \<open>int(parts[i])\<close>, with their exceptions.\<close>

definition int_at :: "string list \<Rightarrow> nat \<Rightarrow> exn + int" where
  "int_at parts i =
     (if length parts \<le> i then Inl IndexError
      else (case py_int_of_str (parts ! i) of None \<Rightarrow> Inl ValueError | Some n \<Rightarrow> Inr n))"

text \<open>
  The block "Parse result to count inserts vs updates" of \<open>_process_batch\<close>: the first
  word of the result selects the counter.
\<close>

definition count_result :: "string \<Rightarrow> pipeline \<Rightarrow> exn + pipeline" where
  "count_result result p =
     (if result = [] then Inr p
      else (case py_split result of
              [] \<Rightarrow> Inl IndexError
            | p0 # ps \<Rightarrow>
                if p0 = ''INSERT'' then
                  (case int_at (p0 # ps) 2 of
                     Inl e \<Rightarrow> Inl e
                   | Inr n \<Rightarrow> Inr (p\<lparr> total_inserted := total_inserted p + n \<rparr>))
                else if p0 = ''UPDATE'' then
                  (case int_at (p0 # ps) 1 of
                     Inl e \<Rightarrow> Inl e
                   | Inr n \<Rightarrow> Inr (p\<lparr> total_updated := total_updated p + n \<rparr>))
                else Inr p))"

text \<open>
  \<open>_process_batch(records, is_update)\<close>. The path is chosen by the size of the batch
  alone. The result is the exception that leaves the function, if any, and the
  pipeline; the handler adds the size of the batch to \<open>total_errors\<close> and re-raises.
\<close>

definition batch_failed :: "exn \<Rightarrow> nat \<Rightarrow> pipeline \<Rightarrow> exn option \<times> pipeline" where
  "batch_failed e n p = (Some e, p\<lparr> total_errors := total_errors p + int n \<rparr>)"

definition process_batch :: "norm_record list \<Rightarrow> bool \<Rightarrow> pipeline \<Rightarrow> exn option \<times> pipeline" where
  "process_batch records is_update p =
     (if records = [] then (None, p)
      else
        (let values = map row_of records in
         if length records > 100 then
           (let p1 = p\<lparr> calls := calls p @ [CopyRecordsToTable values] \<rparr> in
            case copy_records_to_table values (carriers p1) of
              Inl e \<Rightarrow> batch_failed e (length records) p1
            | Inr t \<Rightarrow>
                (None, p1\<lparr> carriers := t,
                           total_inserted := total_inserted p1 + int (length records) \<rparr>))
         else
           (let p1 = p\<lparr> calls := calls p @ [Execute values] \<rparr> in
            case execute values (carriers p1) of
              Inl e \<Rightarrow> batch_failed e (length records) p1
            | Inr (result, t) \<Rightarrow>
                (case count_result result (p1\<lparr> carriers := t \<rparr>) of
                   Inl e \<Rightarrow> batch_failed e (length records) (p1\<lparr> carriers := t \<rparr>)
                 | Inr p2 \<Rightarrow> (None, p2)))))"

text \<open>
  The body of \<open>for record in api_batch\<close> in \<open>run_full_ingestion\<close>. The loop state is
  the pipeline and the local \<open>batch_buffer\<close>; the third component tells whether the
  handler executed \<open>break\<close>. A failed batch write is caught by the same handler, so the
  buffer is not emptied then.
\<close>

definition record_failed ::
  "raw_record \<Rightarrow> exn \<Rightarrow> pipeline \<Rightarrow> norm_record list \<Rightarrow> pipeline \<times> norm_record list \<times> bool"
where
  "record_failed record e p buf =
     (let p1 = p\<lparr> total_errors := total_errors p + 1,
                  error_records := error_records p @ [(map_of record ''usdot_number'', e)] \<rparr>
      in (p1, buf, max_errors p1 \<le> total_errors p1))"

definition full_record ::
  "raw_record \<Rightarrow> pipeline \<Rightarrow> norm_record list \<Rightarrow> pipeline \<times> norm_record list \<times> bool"
where
  "full_record record p buf =
     (case normalize record of
        Inl e \<Rightarrow> record_failed record e p buf
      | Inr normalized \<Rightarrow>
          (let buf1 = buf @ [normalized] in
           if batch_size p \<le> int (length buf1) then
             (case process_batch buf1 False p of
                (None, p1) \<Rightarrow> (p1, [], False)
              | (Some e, p1) \<Rightarrow> record_failed record e p1 buf1)
           else (p, buf1, False)))"

fun full_page ::
  "raw_record list \<Rightarrow> pipeline \<Rightarrow> norm_record list \<Rightarrow> pipeline \<times> norm_record list \<times> bool"
where
  "full_page [] p buf = (p, buf, False)"
| "full_page (record # rest) p buf =
     (case full_record record p buf of
        (p1, buf1, True) \<Rightarrow> (p1, buf1, True)
      | (p1, buf1, False) \<Rightarrow> full_page rest p1 buf1)"

text \<open>
  The loop over the pages the client yields, with the check after each page
  ("Check if we should stop due to errors"). The third component tells whether the loop
  was left by \<open>break\<close>.
\<close>

fun full_pages ::
  "raw_record list list \<Rightarrow> pipeline \<Rightarrow> norm_record list \<Rightarrow> pipeline \<times> norm_record list \<times> bool"
where
  "full_pages [] p buf = (p, buf, False)"
| "full_pages (api_batch # rest) p buf =
     (case full_page api_batch (p\<lparr> total_fetched := total_fetched p + int (length api_batch) \<rparr>) buf of
        (p1, buf1, broke) \<Rightarrow>
          if max_errors p1 \<le> total_errors p1 then (p1, buf1, True)
          else full_pages rest p1 buf1)"

text \<open>
  \<open>run_full_ingestion\<close> over the pages the client yields: the loops, then the
  remaining records of the buffer, whose failure leaves the run as an exception.
\<close>

definition flush :: "bool \<Rightarrow> pipeline \<times> norm_record list \<Rightarrow> (exn + unit) \<times> pipeline" where
  "flush is_update pb =
     (case pb of (p, buf) \<Rightarrow>
        if buf \<noteq> [] then
          (case process_batch buf is_update p of
             (None, p1) \<Rightarrow> (Inr (), p1)
           | (Some e, p1) \<Rightarrow> (Inl e, p1))
        else (Inr (), p))"

definition run_full_ingestion :: "raw_record list list \<Rightarrow> pipeline \<Rightarrow> (exn + unit) \<times> pipeline" where
  "run_full_ingestion pages p =
     (case full_pages pages p [] of (p1, buf, stopped) \<Rightarrow> flush False (p1, buf))"

text \<open>
  \<open>run_incremental_update\<close>: the same loops with \<open>is_update=True\<close>, a handler that
  only counts, and no test of \<open>max_errors\<close>.
\<close>

definition update_record ::
  "raw_record \<Rightarrow> pipeline \<Rightarrow> norm_record list \<Rightarrow> pipeline \<times> norm_record list"
where
  "update_record record p buf =
     (case normalize record of
        Inl e \<Rightarrow> (p\<lparr> total_errors := total_errors p + 1 \<rparr>, buf)
      | Inr normalized \<Rightarrow>
          (let buf1 = buf @ [normalized] in
           if batch_size p \<le> int (length buf1) then
             (case process_batch buf1 True p of
                (None, p1) \<Rightarrow> (p1, [])
              | (Some e, p1) \<Rightarrow> (p1\<lparr> total_errors := total_errors p1 + 1 \<rparr>, buf1))
           else (p, buf1)))"

fun update_page :: "raw_record list \<Rightarrow> pipeline \<Rightarrow> norm_record list \<Rightarrow> pipeline \<times> norm_record list" where
  "update_page [] p buf = (p, buf)"
| "update_page (record # rest) p buf =
     (case update_record record p buf of (p1, buf1) \<Rightarrow> update_page rest p1 buf1)"

fun update_pages ::
  "raw_record list list \<Rightarrow> pipeline \<Rightarrow> norm_record list \<Rightarrow> pipeline \<times> norm_record list"
where
  "update_pages [] p buf = (p, buf)"
| "update_pages (api_batch # rest) p buf =
     (case update_page api_batch (p\<lparr> total_fetched := total_fetched p + int (length api_batch) \<rparr>) buf of
        (p1, buf1) \<Rightarrow> update_pages rest p1 buf1)"

definition run_incremental_update :: "raw_record list list \<Rightarrow> pipeline \<Rightarrow> (exn + unit) \<times> pipeline" where
  "run_incremental_update pages p = flush True (update_pages pages p [])"

section \<open>Notions used in the statements about the loader\<close>

text \<open>
  Two carriers loaded twice through the safe path, and a batch of 101 updates, the first
  of them for a carrier the table already holds.
\<close>

definition two_carriers :: "norm_record list" where
  "two_carriers =
     [ [(''usdot_number'', PInt 1), (''legal_name'', PStr ''A'')],
       [(''usdot_number'', PInt 2), (''legal_name'', PStr ''B'')] ]"

definition after_first :: pipeline where
  "after_first = snd (process_batch two_carriers False (new_pipeline 1000 100 []))"

definition after_second :: pipeline where
  "after_second = snd (process_batch two_carriers False after_first)"

definition updates_101 :: "norm_record list" where
  "updates_101 = map (\<lambda>i. [(''usdot_number'', PInt (int i))]) [1..<102]"

definition one_carrier :: table where
  "one_carrier = [(PInt 1, row_of [(''usdot_number'', PInt 1)])]"

section \<open>Notions used in the statements about the error budget\<close>

text \<open>
  A record without natural key, which \<open>normalize\<close> rejects, a valid record with what
  it normalizes to, and the pipeline left by a run that met its budget of two errors.
\<close>

definition bad_record :: raw_record where
  "bad_record = [(''legal_name'', JStr ''NO KEY'')]"

definition good_record :: raw_record where
  "good_record = [(''usdot_number'', JInt 7)]"

definition good_normalized :: norm_record where
  "good_normalized =
     [(''usdot_number'', PInt 7), (''legal_name'', PStr ''Unknown Carrier #7''),
      (''raw_data'', PStr (json_dumps good_record))]"

text \<open>A record whose key is no number; \<open>normalize\<close> stores its key as \<open>None\<close>.\<close>

definition text_key_record :: raw_record where
  "text_key_record = [(''usdot_number'', JStr ''abc'')]"

definition text_key_normalized :: norm_record where
  "text_key_normalized =
     [(''usdot_number'', PNone), (''legal_name'', PStr ''Unknown Carrier #None''),
      (''raw_data'', PStr (json_dumps text_key_record))]"


section \<open>Initial load entry point: \<open>run_initial_load\<close>\<close>

text \<open>
  A call with keyword arguments binds each keyword to a parameter of the callee; a
  keyword that the signature does not declare raises \<open>TypeError\<close> at the call, before
  the body runs. \<open>run_full_ingestion(self, progress_callback=None)\<close> declares one
  keyword parameter.
\<close>

definition run_full_ingestion_parameters :: "string list" where
  "run_full_ingestion_parameters = [''progress_callback'']"

definition bind_keywords :: "string list \<Rightarrow> string list \<Rightarrow> exn + unit" where
  "bind_keywords parameters keywords =
     (if list_all (\<lambda>k. k \<in> set parameters) keywords then Inr () else Inl TypeError)"

text \<open>
  What one call meets: whether the database initialises and closes (or which exception
  is raised), the count the client reports, the operator's answer to
  \<open>Continue? (y/n)\<close>, the pages the client would yield and the table.
\<close>

record load_env =
  initialize_database :: "exn option"
  get_total_count :: "exn + int"
  answer :: string
  close_database :: "exn option"
  source_pages :: "raw_record list list"
  initial_table :: table

datatype outcome = Raised exn | Cancelled | Loaded pipeline

text \<open>\<open>if limit:\<close> for the optional integer argument.\<close>

definition limit_given :: "int option \<Rightarrow> bool" where
  "limit_given limit = (case limit of None \<Rightarrow> False | Some n \<Rightarrow> n \<noteq> 0)"

text \<open>The \<open>finally\<close> clause: an exception of \<open>close_database\<close> replaces the outcome.\<close>

definition finally_close :: "exn option \<Rightarrow> outcome \<Rightarrow> outcome" where
  "finally_close closing result = (case closing of None \<Rightarrow> result | Some e \<Rightarrow> Raised e)"

definition run_initial_load :: "int option \<Rightarrow> int \<Rightarrow> load_env \<Rightarrow> outcome" where
  "run_initial_load limit bsize env =
     finally_close (close_database env)
       (case initialize_database env of
          Some e \<Rightarrow> Raised e
        | None \<Rightarrow>
            (case (case limit of
                     None \<Rightarrow> get_total_count env
                   | Some n \<Rightarrow> if n \<noteq> 0 then Inr n else get_total_count env) of
               Inl e \<Rightarrow> Raised e
             | Inr total_count \<Rightarrow>
                 if \<not> limit_given limit \<and> total_count > 100000 \<and> py_lower (answer env) \<noteq> ''y''
                 then Cancelled
                 else
                   (case bind_keywords run_full_ingestion_parameters
                           [''progress_callback'', ''limit''] of
                      Inl e \<Rightarrow> Raised e
                    | Inr u \<Rightarrow>
                        (case run_full_ingestion (source_pages env)
                                (new_pipeline bsize 100 (initial_table env)) of
                           (Inl e, p) \<Rightarrow> Raised e
                         | (Inr u, p) \<Rightarrow> Loaded p))))"

text \<open>The call reaches the ingestion step: nothing fails before it and it is not cancelled.\<close>

definition reaches_ingestion :: "int option \<Rightarrow> load_env \<Rightarrow> bool" where
  "reaches_ingestion limit env =
     (initialize_database env = None \<and> close_database env = None \<and>
      (if limit_given limit then True
       else (case get_total_count env of
               Inl e \<Rightarrow> False
             | Inr n \<Rightarrow> n \<le> 100000 \<or> py_lower (answer env) = ''y'')))"

definition quiet_env :: load_env where
  "quiet_env =
     \<lparr> initialize_database = None, get_total_count = Inr 2200000, answer = ''n'',
       close_database = None, source_pages = [], initial_table = [] \<rparr>"

section \<open>Bulk fetcher with checkpoints: \<open>BulkFMCSAFetcher.fetch_all\<close>\<close>

text \<open>
  The state of the \<open>while offset < total_count\<close> loop: the loop variables, the
  carriers collected, and the two kinds of files on disk. A batch file is written by
  \<open>open(filename, 'w')\<close>, which leaves it empty, and then \<open>json.dump\<close>; the
  checkpoint file by \<open>open(self.checkpoint_file, 'wb')\<close>, which empties the previous
  checkpoint, and then \<open>pickle.dump\<close>. It holds the offset to resume from and the
  count fetched so far (its timestamp is left out). What follows the loop, the final
  save of the whole dataset and the removal of the checkpoint file, is left out.
\<close>

datatype 'r batch_file = Partial | Complete "'r list"

datatype checkpoint_file = Absent | Unreadable | Written nat nat

record 'r fetcher =
  offset :: nat
  batch_num :: nat
  consecutive_empty :: nat
  fetched :: nat
  collected :: "'r list"
  batch_files :: "(nat \<times> 'r batch_file) list"
  checkpoint :: checkpoint_file

definition fetch_size :: nat where
  "fetch_size = 50000"

text \<open>\<open>save_checkpoint\<close>, as the states after each of its two statements.\<close>

definition open_checkpoint :: "'r fetcher \<Rightarrow> 'r fetcher" where
  "open_checkpoint f = f\<lparr> checkpoint := Unreadable \<rparr>"

definition dump_checkpoint :: "nat \<Rightarrow> nat \<Rightarrow> 'r fetcher \<Rightarrow> 'r fetcher" where
  "dump_checkpoint off cnt f = f\<lparr> checkpoint := Written off cnt \<rparr>"

definition save_checkpoint :: "nat \<Rightarrow> nat \<Rightarrow> 'r fetcher \<Rightarrow> 'r fetcher list" where
  "save_checkpoint off cnt f = [open_checkpoint f, dump_checkpoint off cnt (open_checkpoint f)]"

text \<open>
  \<open>load_checkpoint\<close>: a file that cannot be unpickled is caught by the bare
  \<open>except\<close> and read as no checkpoint.
\<close>

definition load_checkpoint :: "checkpoint_file \<Rightarrow> nat \<times> nat" where
  "load_checkpoint c =
     (case c of Absent \<Rightarrow> (0, 0) | Unreadable \<Rightarrow> (0, 0) | Written off cnt \<Rightarrow> (off, cnt))"

text \<open>The two statements of \<open>save_batch_to_file\<close>.\<close>

definition open_batch_file :: "nat \<Rightarrow> 'r fetcher \<Rightarrow> 'r fetcher" where
  "open_batch_file n f = f\<lparr> batch_files := dict_set (batch_files f) n Partial \<rparr>"

definition dump_batch_file :: "'r list \<Rightarrow> nat \<Rightarrow> 'r fetcher \<Rightarrow> 'r fetcher" where
  "dump_batch_file batch n f = f\<lparr> batch_files := dict_set (batch_files f) n (Complete batch) \<rparr>"

text \<open>
  The body of the loop for a non-empty batch, statement by statement: the states after
  the batch file is opened, after it is written, after the counters are updated and,
  for a batch whose number is a multiple of 10, after each statement of
  \<open>save_checkpoint\<close>. The iteration ends by moving to the next batch.
\<close>

definition save_batch_steps :: "'r list \<Rightarrow> 'r fetcher \<Rightarrow> 'r fetcher list" where
  "save_batch_steps batch f =
     (let f0 = f\<lparr> consecutive_empty := 0 \<rparr>;
          f1 = open_batch_file (batch_num f0) f0;
          f2 = dump_batch_file batch (batch_num f1) f1;
          f3 = f2\<lparr> collected := collected f2 @ batch, fetched := fetched f2 + length batch \<rparr>
      in [f1, f2, f3] @
         (if batch_num f3 mod 10 = 0
          then save_checkpoint (offset f3 + fetch_size) (fetched f3) f3 else []))"

definition save_batch :: "'r list \<Rightarrow> 'r fetcher \<Rightarrow> 'r fetcher" where
  "save_batch batch f =
     (let f3 = last (save_batch_steps batch f)
      in f3\<lparr> offset := offset f3 + fetch_size, batch_num := batch_num f3 + 1 \<rparr>)"

text \<open>
  The loop, run on the results of the successive requests (the empty list when a request
  failed): every state it passes through, in order. Each of them is a state a crash can
  leave behind.
\<close>

fun fetch_all_trace :: "nat \<Rightarrow> 'r list list \<Rightarrow> 'r fetcher \<Rightarrow> 'r fetcher list" where
  "fetch_all_trace total_count [] f = [f]"
| "fetch_all_trace total_count (batch # responses) f =
     (if \<not> offset f < total_count then [f]
      else if batch = [] then
        (if 3 \<le> consecutive_empty f + 1
         then [f, f\<lparr> consecutive_empty := consecutive_empty f + 1 \<rparr>]
         else f # fetch_all_trace total_count responses
                    (f\<lparr> consecutive_empty := consecutive_empty f + 1 \<rparr>))
      else f # save_batch_steps batch f
             @ fetch_all_trace total_count responses (save_batch batch f))"

definition fresh_fetcher :: "'r fetcher" where
  "fresh_fetcher =
     \<lparr> offset = 0, batch_num = 0, consecutive_empty = 0, fetched = 0, collected = [],
       batch_files = [], checkpoint = Absent \<rparr>"

text \<open>
  A restart reads the checkpoint and goes on with the batch at its offset. The batches
  fetched again are those from there on whose file was already written.
\<close>

definition resume_batch :: "'r fetcher \<Rightarrow> nat" where
  "resume_batch f = fst (load_checkpoint (checkpoint f)) div fetch_size"

definition refetched :: "'r fetcher \<Rightarrow> nat" where
  "refetched f =
     length (filter (\<lambda>(n, c). resume_batch f \<le> n \<and> c \<noteq> Partial) (batch_files f))"

section \<open>Notions used in the statements about the checkpoints\<close>

text \<open>A batch is saved when its file is written to the end.\<close>

definition saved :: "'r fetcher \<Rightarrow> nat \<Rightarrow> bool" where
  "saved f n = (case map_of (batch_files f) n of None \<Rightarrow> False | Some c \<Rightarrow> c \<noteq> Partial)"

text \<open>
  What holds of the fetcher at the start of every iteration: the offset is that of the
  next batch, the batch files are numbered from 0 and complete, and the checkpoint, once
  written, is the one of the last batch whose number is a multiple of 10.
\<close>

definition ckpt_inv :: "'r fetcher \<Rightarrow> bool" where
  "ckpt_inv f =
     (offset f = batch_num f * fetch_size \<and>
      map fst (batch_files f) = [0..<batch_num f] \<and>
      Partial \<notin> snd ` set (batch_files f) \<and>
      (case checkpoint f of
         Absent \<Rightarrow> batch_num f = 0
       | Unreadable \<Rightarrow> False
       | Written off cnt \<Rightarrow>
           1 \<le> batch_num f \<and> off = ((batch_num f - 1) div 10 * 10 + 1) * fetch_size))"

text \<open>
  What holds of every state of the loop: the checkpoint does not point beyond a batch
  that is not saved, and unless the checkpoint file is being rewritten, at most ten
  saved batches lie beyond it.
\<close>

definition crash_ok :: "'r fetcher \<Rightarrow> bool" where
  "crash_ok s =
     ((\<forall>n < resume_batch s. saved s n) \<and> (checkpoint s \<noteq> Unreadable \<longrightarrow> refetched s \<le> 10))"

text \<open>
  Runs of ten and of eleven batches of one carrier, and two states of the second: after
  the file of batch 10 is written, and after the checkpoint file is opened for it.
\<close>

definition ten_batches :: "unit list list" where
  "ten_batches = [[()], [()], [()], [()], [()], [()], [()], [()], [()], [()]]"

definition eleven_batches :: "unit list list" where
  "eleven_batches = [[()], [()], [()], [()], [()], [()], [()], [()], [()], [()], [()]]"

definition crash_before_checkpoint :: "unit fetcher" where
  "crash_before_checkpoint = fetch_all_trace 2200000 eleven_batches fresh_fetcher ! 44"

definition crash_inside_checkpoint :: "unit fetcher" where
  "crash_inside_checkpoint = fetch_all_trace 2200000 eleven_batches fresh_fetcher ! 46"

section \<open>\<open>json.loads\<close> of an object of scalars\<close>

text \<open>
  The decoder, for the documents whose top level is an object with null, boolean,
  integer and string values; \<open>None\<close> stands for \<open>JSONDecodeError\<close> and for the
  documents outside this fragment (floats, arrays, nested objects, code points above
  255). Whitespace is skipped between tokens, a string ends at the first unescaped
  quote and may not contain control characters, and a repeated key keeps its first
  position and its last value.
\<close>

definition json_ws :: "char \<Rightarrow> bool" where
  "json_ws c = (c = CHR '' '' \<or> c = CHR 0x09 \<or> c = CHR 0x0A \<or> c = CHR 0x0D)"

definition skip_ws :: "string \<Rightarrow> string" where
  "skip_ws s = dropWhile json_ws s"

definition hex_val :: "char \<Rightarrow> nat option" where
  "hex_val c =
     map_of (zip ''0123456789abcdefABCDEF''
                 [0, 1, 2, 3, 4, 5, 6, 7, 8, 9, 10, 11, 12, 13, 14, 15, 10, 11, 12, 13, 14, 15]) c"

definition hex4 :: "char \<Rightarrow> char \<Rightarrow> char \<Rightarrow> char \<Rightarrow> nat option" where
  "hex4 a b c d =
     (case (hex_val a, hex_val b, hex_val c, hex_val d) of
        (Some w, Some x, Some y, Some z) \<Rightarrow> Some (4096 * w + 256 * x + 16 * y + z)
      | _ \<Rightarrow> None)"

definition unescape :: "char \<Rightarrow> char option" where
  "unescape e =
     map_of [(CHR 0x22, CHR 0x22), (CHR 0x5C, CHR 0x5C), (CHR ''/'', CHR ''/''),
             (CHR ''b'', CHR 0x08), (CHR ''f'', CHR 0x0C), (CHR ''n'', CHR 0x0A),
             (CHR ''r'', CHR 0x0D), (CHR ''t'', CHR 0x09)] e"

definition prepend :: "char \<Rightarrow> (string \<times> string) option \<Rightarrow> (string \<times> string) option" where
  "prepend c r = (case r of None \<Rightarrow> None | Some (s, rest) \<Rightarrow> Some (c # s, rest))"

text \<open>The text after an opening quote: the decoded string and what follows the closing quote.\<close>

fun scan_string :: "string \<Rightarrow> (string \<times> string) option" where
  "scan_string [] = None"
| "scan_string (c # cs) =
     (if c = CHR 0x22 then Some ([], cs)
      else if c = CHR 0x5C then
        (case cs of
           [] \<Rightarrow> None
         | e # r \<Rightarrow>
             if e = CHR ''u'' then
               (case r of
                  a # b # x # y # r' \<Rightarrow>
                    (case hex4 a b x y of
                       None \<Rightarrow> None
                     | Some n \<Rightarrow> if n < 256 then prepend (char_of n) (scan_string r') else None)
                | _ \<Rightarrow> None)
             else (case unescape e of
                     None \<Rightarrow> None
                   | Some ch \<Rightarrow> prepend ch (scan_string r)))
      else if (of_char c :: nat) < 32 then None
      else prepend c (scan_string cs))"

definition scan_nat :: "string \<Rightarrow> (nat \<times> string) option" where
  "scan_nat s =
     (case s of
        [] \<Rightarrow> None
      | c # cs \<Rightarrow>
          if c = CHR ''0'' then Some (0, cs)
          else if is_digit c then
            Some (nat_of_digits (c # takeWhile is_digit cs), dropWhile is_digit cs)
          else None)"

text \<open>An integer literal; one that goes on as a fraction or an exponent is no integer.\<close>

definition scan_int :: "string \<Rightarrow> (jval \<times> string) option" where
  "scan_int s =
     (case (case s of
              [] \<Rightarrow> None
            | c # cs \<Rightarrow>
                if c = CHR ''-'' then map_option (\<lambda>(n, rest). (- int n, rest)) (scan_nat cs)
                else map_option (\<lambda>(n, rest). (int n, rest)) (scan_nat s)) of
        None \<Rightarrow> None
      | Some (i, rest) \<Rightarrow>
          (case rest of
             [] \<Rightarrow> Some (JInt i, rest)
           | c # cs \<Rightarrow>
               if c = CHR ''.'' \<or> c = CHR ''e'' \<or> c = CHR ''E'' then None
               else Some (JInt i, rest)))"

definition scan_value :: "string \<Rightarrow> (jval \<times> string) option" where
  "scan_value s =
     (if take 4 s = ''null'' then Some (JNull, drop 4 s)
      else if take 4 s = ''true'' then Some (JBool True, drop 4 s)
      else if take 5 s = ''false'' then Some (JBool False, drop 5 s)
      else (case s of
              [] \<Rightarrow> None
            | c # cs \<Rightarrow>
                if c = CHR 0x22 then map_option (\<lambda>(t, rest). (JStr t, rest)) (scan_string cs)
                else scan_int s))"

text \<open>One member of the object: key, colon, value; and what follows the value.\<close>

definition scan_member :: "string \<Rightarrow> ((string \<times> jval) \<times> string) option" where
  "scan_member s =
     (case skip_ws s of
        [] \<Rightarrow> None
      | q # r \<Rightarrow>
          if q \<noteq> CHR 0x22 then None
          else (case scan_string r of
                  None \<Rightarrow> None
                | Some (k, r1) \<Rightarrow>
                    (case skip_ws r1 of
                       [] \<Rightarrow> None
                     | c # r2 \<Rightarrow>
                         if c \<noteq> CHR '':'' then None
                         else (case scan_value (skip_ws r2) of
                                 None \<Rightarrow> None
                               | Some (v, r3) \<Rightarrow> Some ((k, v), skip_ws r3)))))"

text \<open>Every member consumes at least its key, so the loop over the members ends.\<close>

lemma scan_string_shorter: "scan_string s = Some (t, rest) \<Longrightarrow> length rest < length s"
proof (induction s arbitrary: t rest rule: scan_string.induct)
  case 1
  then show ?case by simp
next
  case (2 c cs)
  then show ?case
    by (auto simp: prepend_def split: if_splits list.splits option.splits prod.splits)
       (force+)?
qed

lemma skip_ws_shorter: "length (skip_ws s) \<le> length s"
  by (simp add: skip_ws_def length_dropWhile_le)

lemma scan_value_shorter: "scan_value s = Some (v, rest) \<Longrightarrow> length rest \<le> length s"
  by (auto simp: scan_value_def scan_int_def scan_nat_def length_dropWhile_le le_SucI
           dest!: scan_string_shorter split: if_splits list.splits option.splits prod.splits)

lemma scan_member_shorter: "scan_member s = Some (m, rest) \<Longrightarrow> length rest < length s"
proof -
  assume a: "scan_member s = Some (m, rest)"
  then obtain q r k r1 c r2 v r3 where
    s: "skip_ws s = q # r" and k: "scan_string r = Some (k, r1)" and
    c: "skip_ws r1 = c # r2" and v: "scan_value (skip_ws r2) = Some (v, r3)" and
    rest: "rest = skip_ws r3"
    by (auto simp: scan_member_def split: if_splits list.splits option.splits prod.splits)
  have "length rest \<le> length r3" using rest skip_ws_shorter by simp
  also have "\<dots> \<le> length (skip_ws r2)" using scan_value_shorter[OF v] .
  also have "\<dots> \<le> length r2" by (rule skip_ws_shorter)
  also have "\<dots> < length (skip_ws r1)" using c by simp
  also have "\<dots> \<le> length r1" by (rule skip_ws_shorter)
  also have "\<dots> < length r" using scan_string_shorter[OF k] .
  also have "\<dots> < length (skip_ws s)" using s by simp
  also have "\<dots> \<le> length s" by (rule skip_ws_shorter)
  finally show ?thesis .
qed

text \<open>
  The members after the opening brace or after a comma, up to the closing brace;
  each one is stored as \<open>dict[key] = value\<close>.
\<close>

function members :: "raw_record \<Rightarrow> string \<Rightarrow> (raw_record \<times> string) option" where
  "members acc s =
     (case scan_member s of
        None \<Rightarrow> None
      | Some ((k, v), r) \<Rightarrow>
          (case r of
             [] \<Rightarrow> None
           | c # r' \<Rightarrow>
               if c = CHR ''}'' then Some (dict_set acc k v, r')
               else if c = CHR '','' then members (dict_set acc k v) r'
               else None))"
  by pat_completeness auto
termination
  by (relation "measure (\<lambda>(acc, s). length s)") (auto dest: scan_member_shorter)

declare members.simps [simp del]

definition json_loads :: "string \<Rightarrow> raw_record option" where
  "json_loads s =
     (case skip_ws s of
        [] \<Rightarrow> None
      | b # r \<Rightarrow>
          if b \<noteq> CHR ''{'' then None
          else (case (case skip_ws r of
                        [] \<Rightarrow> None
                      | c # r' \<Rightarrow> if c = CHR ''}'' then Some ([], r') else members [] r) of
                  None \<Rightarrow> None
                | Some (d, rest) \<Rightarrow> if skip_ws rest = [] then Some d else None))"

section \<open>Notions used in the statements about the archived input\<close>

text \<open>What follows a value in the output of \<open>json.dumps\<close>: a comma or the closing brace.\<close>

definition follows_value :: "string \<Rightarrow> bool" where
  "follows_value rest = (\<exists>r. rest = CHR '','' # r \<or> rest = CHR ''}'' # r)"

text \<open>
  A record whose name holds a quote, a backslash, a line feed and the character
  with code point 233, each of which \<open>json.dumps\<close> escapes in its own way.
\<close>

definition named_carrier :: raw_record where
  "named_carrier =
     [(''usdot_number'', JInt 80),
      (''legal_name'', JStr [CHR ''A'', CHR 0x22, CHR 0x5C, CHR 0x0A, CHR 0xE9, CHR ''b''])]"

section \<open>Notions used in the statements about the client\<close>

text \<open>The backoff delays slept after attempts \<open>a\<close> up to \<open>k\<close> (none after the last attempt).\<close>

definition backoff_delays :: "client \<Rightarrow> nat \<Rightarrow> nat \<Rightarrow> rat list" where
  "backoff_delays c a k =
     map (\<lambda>i. retry_delay c * retry_backoff c ^ i) [a..<min k (max_retries c - 1)]"

section \<open>Retry and backoff of one page fetch\<close>

lemma backoff_eq:
  "backoff c a st =
     st\<lparr> slept := slept st @
        (if int a < int (max_retries c) - 1 then [retry_delay c * retry_backoff c ^ a] else []) \<rparr>"
  by (simp add: backoff_def sleep_def)

lemma fetch_loop_transient:
  assumes "attempt < max_retries c" "transient (resp attempt)"
  shows "fetch_loop c resp attempt st = fetch_loop c resp (Suc attempt) (backoff c attempt st)"
  using assms by (subst fetch_loop.simps) (cases "resp attempt"; simp)

lemma fetch_loop_rate_limited:
  assumes "attempt < max_retries c" "rate_limited n (resp attempt)"
  shows "fetch_loop c resp attempt st = fetch_loop c resp (Suc attempt) (sleep (of_int n) st)"
  using assms by (subst fetch_loop.simps) (auto simp: rate_limited_def)

lemma fetch_loop_exhausted:
  "\<not> attempt < max_retries c \<Longrightarrow> fetch_loop c resp attempt st = (Inl FetchFailed, fail_request st)"
  by (subst fetch_loop.simps) simp

lemma fetch_loop_success:
  assumes "attempt < max_retries c" "success_with d (resp attempt)"
  shows "fetch_loop c resp attempt st =
           (Inr d, st\<lparr> total_requests := Suc (total_requests st),
                        total_records := total_records st + length d \<rparr>)"
  using assms by (subst fetch_loop.simps) (auto simp: success_with_def)

lemma fetch_loop_transient_run:
  assumes "a \<le> k" "k \<le> max_retries c" "\<forall>i. a \<le> i \<and> i < k \<longrightarrow> transient (resp i)"
  shows "fetch_loop c resp a st =
           fetch_loop c resp k (st\<lparr> slept := slept st @ backoff_delays c a k \<rparr>)"
  using assms
proof (induction "k - a" arbitrary: a st)
  case 0
  then show ?case by (simp add: backoff_delays_def)
next
  case (Suc n)
  then have a: "a < k" "a < max_retries c" "transient (resp a)" by auto
  from Suc have "n = k - Suc a" "Suc a \<le> k" by auto
  from Suc(1)[OF this(1) this(2) Suc(4), of "backoff c a st"] Suc(5)
  have step: "fetch_loop c resp (Suc a) (backoff c a st) =
      fetch_loop c resp k
        ((backoff c a st)\<lparr> slept := slept (backoff c a st) @ backoff_delays c (Suc a) k \<rparr>)"
    by auto
  have "backoff_delays c a k =
      (if int a < int (max_retries c) - 1 then [retry_delay c * retry_backoff c ^ a] else [])
        @ backoff_delays c (Suc a) k"
    using a Suc(4) by (auto simp: backoff_delays_def upt_conv_Cons)
  with step a show ?case
    by (simp add: fetch_loop_transient backoff_eq)
qed

lemma fetch_loop_rate_limited_run:
  assumes "a \<le> k" "k \<le> max_retries c" "\<forall>i. a \<le> i \<and> i < k \<longrightarrow> rate_limited (hint i) (resp i)"
  shows "fetch_loop c resp a st =
           fetch_loop c resp k (st\<lparr> slept := slept st @ map (\<lambda>i. of_int (hint i)) [a..<k] \<rparr>)"
  using assms
proof (induction "k - a" arbitrary: a st)
  case 0
  then show ?case by simp
next
  case (Suc n)
  then have a: "a < k" "a < max_retries c" "rate_limited (hint a) (resp a)" by auto
  from Suc have "n = k - Suc a" "Suc a \<le> k" by auto
  from Suc(1)[OF this(1) this(2) Suc(4), of "sleep (of_int (hint a)) st"] Suc(5)
  have step: "fetch_loop c resp (Suc a) (sleep (of_int (hint a)) st) =
      fetch_loop c resp k
        ((sleep (of_int (hint a)) st)\<lparr> slept := slept (sleep (of_int (hint a)) st)
            @ map (\<lambda>i. of_int (hint i)) [Suc a..<k] \<rparr>)"
    by auto
  have "fetch_loop c resp a st = fetch_loop c resp (Suc a) (sleep (of_int (hint a)) st)"
    using a(2,3) by (rule fetch_loop_rate_limited)
  with step a show ?case
    by (simp add: sleep_def upt_conv_Cons)
qed

text \<open>
  Claim C9. A page fetch whose first \<open>k\<close> attempts fail transiently (timeout or 5xx)
  sleeps \<open>retry_delay * retry_backoff ^ attempt\<close> after each failed attempt but the
  last permitted one, in the order of the attempts. If attempt \<open>k\<close> is still within
  \<open>max_retries\<close> and succeeds, its data is returned; if all \<open>max_retries\<close> attempts
  failed, the fetch ends with the terminal error.
\<close>

theorem fetch_batch_transient_backoff:
  assumes "k \<le> max_retries c" and "\<forall>i<k. transient (resp i)"
    and "k < max_retries c \<longrightarrow> success_with d (resp k)"
  shows "fst (fetch_batch c resp st) = (if k = max_retries c then Inl FetchFailed else Inr d) \<and>
         slept (snd (fetch_batch c resp st)) =
           slept st @ map (\<lambda>i. retry_delay c * retry_backoff c ^ i) [0..<min k (max_retries c - 1)]"
proof -
  have run: "fetch_batch c resp st =
      fetch_loop c resp k (st\<lparr> slept := slept st @ backoff_delays c 0 k \<rparr>)"
    unfolding fetch_batch_def using assms(1,2) by (intro fetch_loop_transient_run) auto
  show ?thesis
  proof (cases "k = max_retries c")
    case True
    then show ?thesis
      by (simp add: run fetch_loop_exhausted fail_request_def backoff_delays_def)
  next
    case False
    with assms(1,3) have "k < max_retries c" "success_with d (resp k)" by auto
    then show ?thesis
      by (simp add: run fetch_loop_success backoff_delays_def)
  qed
qed

text \<open>
  With the defaults (3 attempts, 1s, factor 2.0) three timeouts in a row sleep 1s, then
  2s, and end in the terminal error.
\<close>

theorem fetch_batch_transient_backoff_witness:
  "(3::nat) \<le> max_retries default_client \<and>
   transient (TimeoutException :: unit response) \<and>
   fst (fetch_batch default_client (\<lambda>i. TimeoutException :: unit response) stats0) = Inl FetchFailed \<and>
   slept (snd (fetch_batch default_client (\<lambda>i. TimeoutException :: unit response) stats0)) = [1, 2]"
  using fetch_batch_transient_backoff
    [of 3 default_client "\<lambda>i. TimeoutException :: unit response" "[]" stats0]
  by (simp add: default_client_def stats0_def upt_rec)

text \<open>
  Claim C8, as the code has it. A 429 response makes the client sleep the number of
  seconds of the \<open>Retry-After\<close> header (60 without one) and go on to the next attempt of
  the same \<open>for\<close> loop, so the retry is one of the \<open>max_retries\<close> attempts: after
  \<open>k\<close> rate-limit responses the waits are exactly the hints, a success at attempt
  \<open>k < max_retries\<close> is returned, and \<open>max_retries\<close> rate-limit responses in a row end
  the fetch with the terminal error.
\<close>

theorem fetch_batch_rate_limit_counted:
  assumes "k \<le> max_retries c" and "\<forall>i<k. rate_limited (hint i) (resp i)"
    and "k < max_retries c \<longrightarrow> success_with d (resp k)"
  shows "fst (fetch_batch c resp st) = (if k = max_retries c then Inl FetchFailed else Inr d) \<and>
         slept (snd (fetch_batch c resp st)) = slept st @ map (\<lambda>i. of_int (hint i)) [0..<k]"
proof -
  have run: "fetch_batch c resp st =
      fetch_loop c resp k (st\<lparr> slept := slept st @ map (\<lambda>i. of_int (hint i)) [0..<k] \<rparr>)"
    unfolding fetch_batch_def using assms(1,2) by (intro fetch_loop_rate_limited_run) auto
  show ?thesis
  proof (cases "k = max_retries c")
    case True
    then show ?thesis
      by (simp add: run fetch_loop_exhausted fail_request_def)
  next
    case False
    with assms(1,3) have "k < max_retries c" "success_with d (resp k)" by auto
    then show ?thesis
      by (simp add: run fetch_loop_success)
  qed
qed

lemma retry_after_two: "retry_after_of (Some ''2'') = Some 2"
  by (simp add: retry_after_of_def py_int_of_str_def int_strip_def int_isspace_def
      max_str_digits_def is_digit_def digit_val_def)

text \<open>
  The spec's scenario: a 429 with \<open>Retry-After: 2\<close>, then a success. The client waits
  2s and returns the page; the 429 has used up attempt 0.
\<close>

theorem fetch_batch_rate_limit_counted_witness:
  "(1::nat) \<le> max_retries default_client \<and>
   rate_limited 2 (Response 429 (Some ''2'') None :: unit response) \<and>
   success_with [()] (Response 200 None (Some [()])) \<and>
   fst (fetch_batch default_client
      (\<lambda>i. if i = 0 then Response 429 (Some ''2'') None else Response 200 None (Some [()]))
      stats0) = Inr [()] \<and>
   slept (snd (fetch_batch default_client
      (\<lambda>i. if i = 0 then Response 429 (Some ''2'') None else Response 200 None (Some [()]))
      stats0)) = [2]"
  using fetch_batch_rate_limit_counted
    [of 1 default_client "\<lambda>i. 2"
      "\<lambda>i. if i = 0 then Response 429 (Some ''2'') None else Response 200 None (Some [()])"
      "[()]" stats0]
  by (simp add: default_client_def stats0_def rate_limited_def success_with_def retry_after_two)

text \<open>
  Against claim C8 as stated: with the default client, three 429 responses in a row, each
  asking for 2s, are waited for and then the fetch fails terminally, although nothing but
  rate limiting went wrong.
\<close>

theorem fetch_batch_rate_limit_counterexample:
  "fst (fetch_batch default_client (\<lambda>i. Response 429 (Some ''2'') None :: unit response) stats0)
     = Inl FetchFailed \<and>
   slept (snd (fetch_batch default_client
      (\<lambda>i. Response 429 (Some ''2'') None :: unit response) stats0)) = [2, 2, 2]"
  by (simp add: fetch_batch_def fetch_loop.simps default_client_def stats0_def retry_after_two
      sleep_def fail_request_def)

section \<open>Normalization: which records are accepted\<close>

lemma isl_except_int [simp]:
  "isl (except_value_type (if truthy v then map_sum id PInt (py_int v) else Inr PNone)) = False"
  by (cases v) (auto simp: except_value_type_def split: option.splits)

lemma isl_except_decimal:
  "isl (except_value_type (if truthy v then map_sum id PDecimal (py_decimal v) else Inr PNone))
     = (case v of JStr s \<Rightarrow> s \<noteq> [] \<and> decimal_of_str s = None | _ \<Rightarrow> False)"
  by (cases v) (auto simp: except_value_type_def split: option.splits)

lemma jval_case_const:
  "(case v of JNull \<Rightarrow> c | JBool b \<Rightarrow> c | JInt n \<Rightarrow> c | JStr s \<Rightarrow> c) = c"
  by (cases v) simp_all

lemma clean_value_other:
  assumes "db \<notin> set amount_db_fields"
  shows "\<not> isl (clean_value db v)"
  using assms
  by (cases v)
     (simp_all add: clean_value_def Let_def amount_db_fields_def strip_value_def
        except_value_type_def split: option.splits)

lemma clean_value_amount:
  assumes "amount_ok v"
  shows "\<not> isl (clean_value db v)"
proof (cases "db \<in> set amount_db_fields")
  case False
  then show ?thesis by (rule clean_value_other)
next
  case True
  then have "isl (clean_value db v) =
      (v \<noteq> JNull \<and> \<not> is_null_text (strip_value v) \<and>
       isl (except_value_type (if truthy (strip_currency (strip_value v))
           then map_sum id PDecimal (py_decimal (strip_currency (strip_value v))) else Inr PNone)))"
    by (auto simp add: clean_value_def Let_def amount_db_fields_def)
  with assms show ?thesis
    by (cases v) (auto simp: except_value_type_def strip_value_def strip_currency_def amount_text_ok_def Let_def
        split: if_splits option.splits)
qed


lemma dict_has_dict_set: "dict_has (dict_set d k v) k' = (k' = k \<or> dict_has d k')"
  by (induction d k v rule: dict_set.induct) (auto simp: dict_has_def)

lemma map_of_dict_set: "map_of (dict_set d k v) k = Some v"
  by (induction d k v rule: dict_set.induct) auto

lemma map_of_dict_set_other: "k' \<noteq> k \<Longrightarrow> map_of (dict_set d k v) k' = map_of d k'"
  by (induction d k v rule: dict_set.induct) auto

lemma dict_set_new: "k \<notin> fst ` set d \<Longrightarrow> dict_set d k v = d @ [(k, v)]"
  by (induction d k v rule: dict_set.induct) auto

lemma dict_set_last: "k \<notin> fst ` set d \<Longrightarrow> dict_set (d @ [(k, v)]) k w = d @ [(k, w)]"
  by (induction d) auto

lemma map_fields_ok:
  assumes "\<forall>(f, db) \<in> set fm. \<forall>v. map_of r f = Some v \<longrightarrow> \<not> isl (clean_value db v)"
  shows "\<exists>m. map_fields fm r acc = Inr m \<and>
           (\<forall>k. dict_has m k = (dict_has acc k \<or> (\<exists>f. (f, k) \<in> set fm \<and> wanted r f)))"
  using assms
proof (induction fm r acc rule: map_fields.induct)
  case (1 r acc)
  then show ?case by simp
next
  case (2 f db rest r acc)
  show ?case
  proof (cases "wanted r f")
    case False
    then have "map_fields ((f, db) # rest) r acc = map_fields rest r acc"
      by (auto simp: wanted_def split: option.splits)
    moreover from 2 False obtain m where "map_fields rest r acc = Inr m"
        "\<forall>k. dict_has m k = (dict_has acc k \<or> (\<exists>f. (f, k) \<in> set rest \<and> wanted r f))"
      by (cases "map_of r f") (auto simp: wanted_def split: if_splits)
    ultimately show ?thesis using False by auto
  next
    case True
    then obtain v where v: "map_of r f = Some v" "v \<noteq> JNull" "v \<noteq> JStr []"
      by (auto simp: wanted_def split: option.splits)
    with 2(4) obtain x where x: "clean_value db v = Inr x"
      by (cases "clean_value db v") auto
    from 2(2)[OF v(1) _ x] v 2(4)
    obtain m where "map_fields rest r (dict_set acc db x) = Inr m"
        "\<forall>k. dict_has m k = (dict_has (dict_set acc db x) k \<or> (\<exists>f. (f, k) \<in> set rest \<and> wanted r f))"
      by auto
    with v x True show ?thesis
      by (auto simp: dict_has_dict_set)
  qed
qed


lemma amount_columns:
  "list_all (\<lambda>(f, db). if db \<in> set amount_db_fields then f \<in> set amount_raw_fields else True) FIELD_MAPPING"
  by (simp add: FIELD_MAPPING_def amount_db_fields_def amount_raw_fields_def)

lemma key_column: "((f, ''usdot_number'') \<in> set FIELD_MAPPING) = (f = ''usdot_number'')"
  by (auto simp: FIELD_MAPPING_def)

lemma field_mapping_ok:
  assumes "amounts_ok r"
  shows "\<forall>(f, db) \<in> set FIELD_MAPPING. \<forall>v. map_of r f = Some v \<longrightarrow> \<not> isl (clean_value db v)"
proof (clarify)
  fix f db v
  assume in_fm: "(f, db) \<in> set FIELD_MAPPING" and v: "map_of r f = Some v"
    and raised: "isl (clean_value db v)"
  show False
  proof (cases "db \<in> set amount_db_fields")
    case False
    then show ?thesis using clean_value_other raised by blast
  next
    case True
    with in_fm amount_columns have "f \<in> set amount_raw_fields"
      by (auto simp: list_all_iff)
    with assms v have "amount_ok v"
      by (auto simp: amounts_ok_def list_all_iff)
    then show ?thesis using clean_value_amount raised by blast
  qed
qed

lemma map_fields_keeps:
  "map_fields fm r acc = Inr m \<Longrightarrow> k \<notin> snd ` set fm \<Longrightarrow> map_of m k = map_of acc k"
proof (induction fm r acc rule: map_fields.induct)
  case (1 r acc)
  then show ?case by simp
next
  case (2 f db rest r acc)
  then show ?case
    by (auto simp: map_of_dict_set_other split: option.splits if_splits sum.splits)
qed

lemma upper_char_N: "upper_char c = CHR ''N'' \<Longrightarrow> c = CHR ''n'' \<or> c = CHR ''N''"
  by (auto simp: upper_char_def split: if_splits)

lemma null_text_first:
  "is_null_text (JStr t) \<Longrightarrow> t = [] \<or> hd t = CHR ''n'' \<or> hd t = CHR ''N''"
  by (cases t) (auto simp: is_null_text_def py_upper_def dest: upper_char_N)

lemma py_int_of_str_first:
  assumes "py_int_of_str t = Some k"
  shows "t \<noteq> [] \<and> hd t \<noteq> CHR ''n'' \<and> hd t \<noteq> CHR ''N''"
proof (cases t)
  case Nil
  with assms show ?thesis by (simp add: py_int_of_str_def int_strip_def)
next
  case (Cons c cs)
  have "c \<noteq> CHR ''n'' \<and> c \<noteq> CHR ''N''"
  proof (rule ccontr)
    assume "\<not> (c \<noteq> CHR ''n'' \<and> c \<noteq> CHR ''N'')"
    then have c: "c = CHR ''n'' \<or> c = CHR ''N''" by simp
    then have "\<not> int_isspace c" by (auto simp: int_isspace_def)
    then have "int_strip (c # cs) = c # rev (dropWhile int_isspace (rev cs))"
      by (simp add: int_strip_def dropWhile_append3)
    with assms Cons c show False
      by (auto simp: py_int_of_str_def is_digit_def split: if_splits)
  qed
  with Cons show ?thesis by simp
qed

lemma clean_key:
  assumes "map_of r ''usdot_number'' = Some v" and "key_integer r = Some k"
  shows "v \<noteq> JNull \<and> v \<noteq> JStr [] \<and> clean_value ''usdot_number'' v = Inr (PInt k)"
proof (cases v)
  case (JStr s)
  with assms have i: "py_int_of_str (py_strip s) = Some k" by (simp add: key_integer_def)
  from py_int_of_str_first[OF i] null_text_first[of "py_strip s"]
  have n: "\<not> is_null_text (JStr (py_strip s))" "py_strip s \<noteq> []" by auto
  then have "s \<noteq> []" by (auto simp: py_strip_def)
  with JStr i n show ?thesis
    by (simp add: clean_value_def strip_value_def Let_def except_value_type_def)
next
  case (JInt i)
  with assms show ?thesis
    by (auto simp: key_integer_def clean_value_def strip_value_def Let_def except_value_type_def
        is_null_text_def split: if_splits)
qed (use assms in \<open>simp_all add: key_integer_def\<close>)

lemma key_first: "\<exists>rest. FIELD_MAPPING = (''usdot_number'', ''usdot_number'') # rest \<and>
    ''usdot_number'' \<notin> snd ` set rest"
  by (simp add: FIELD_MAPPING_def)

lemma normalize_key:
  assumes "normalize r = Inr n"
  shows "\<exists>m. map_fields FIELD_MAPPING r [] = Inr m \<and>
           map_of n ''usdot_number'' = map_of m ''usdot_number''"
  using assms
  by (auto simp: normalize_def Let_def map_of_dict_set_other
      split: sum.splits option.splits if_splits)

text \<open>
  Claim C1, as the code has it. For a raw record whose monetary amounts are well formed:
  when \<open>usdot_number\<close> is an integer, \<open>normalize\<close> returns a record that holds this
  integer as its key, whatever its sign; when \<open>usdot_number\<close> is absent, \<open>None\<close> or
  the empty string, \<open>normalize\<close> raises \<open>ValueError\<close> (missing required field).
\<close>

theorem normalize_keeps_integer_key:
  assumes "amounts_ok r"
  shows "(\<forall>k. key_integer r = Some k \<longrightarrow>
            (\<exists>n. normalize r = Inr n \<and> map_of n ''usdot_number'' = Some (PInt k))) \<and>
         (\<not> key_present r \<longrightarrow> normalize r = Inl ValueError)"
proof -
  from map_fields_ok[OF field_mapping_ok[OF assms], of "[]"]
  obtain m where m: "map_fields FIELD_MAPPING r [] = Inr m"
    and has: "\<forall>k. dict_has m k =
      (dict_has ([] :: norm_record) k \<or> (\<exists>f. (f, k) \<in> set FIELD_MAPPING \<and> wanted r f))"
    by blast
  have no_key: "\<not> dict_has ([] :: norm_record) ''usdot_number''"
    by (simp add: dict_has_def)
  have p: "dict_has m ''usdot_number'' = key_present r"
    by (simp add: has key_column no_key key_present_def wanted_def)
  then have accepted: "if key_present r then (\<exists>n. normalize r = Inr n) else normalize r = Inl ValueError"
    by (simp add: normalize_def m Let_def dict_has_dict_set split: option.splits)
  have "\<exists>n. normalize r = Inr n \<and> map_of n ''usdot_number'' = Some (PInt k)"
    if k: "key_integer r = Some k" for k
  proof -
    from k obtain v where v: "map_of r ''usdot_number'' = Some v"
      by (auto simp: key_integer_def split: option.splits)
    note c = clean_key[OF v k]
    then have "key_present r" using v by (simp add: key_present_def)
    with accepted obtain n where n: "normalize r = Inr n" by auto
    obtain rest where rest: "FIELD_MAPPING = (''usdot_number'', ''usdot_number'') # rest"
        "''usdot_number'' \<notin> snd ` set rest"
      using key_first by blast
    from m c v have "map_fields rest r [(''usdot_number'', PInt k)] = Inr m"
      by (simp add: rest(1))
    from map_fields_keeps[OF this rest(2)]
    have "map_of m ''usdot_number'' = Some (PInt k)" by simp
    with normalize_key[OF n] m n show ?thesis by auto
  qed
  with accepted show ?thesis by auto
qed

text \<open>
  A record with the key \<open>" -123 "\<close> and a well-formed amount is accepted with the key
  -123; a record with an empty key is rejected.
\<close>

theorem normalize_keeps_integer_key_witness:
  "amounts_ok [(''usdot_number'', JStr '' -123 ''), (''liability_required_amount'', JStr ''$750,000'')] \<and>
   key_integer [(''usdot_number'', JStr '' -123 ''), (''liability_required_amount'', JStr ''$750,000'')]
     = Some (- 123) \<and>
   (\<exists>n. normalize
      [(''usdot_number'', JStr '' -123 ''), (''liability_required_amount'', JStr ''$750,000'')] = Inr n \<and>
      map_of n ''usdot_number'' = Some (PInt (- 123))) \<and>
   amounts_ok [(''usdot_number'', JStr []), (''legal_name'', JStr ''ACME'')] \<and>
   \<not> key_present [(''usdot_number'', JStr []), (''legal_name'', JStr ''ACME'')] \<and>
   normalize [(''usdot_number'', JStr []), (''legal_name'', JStr ''ACME'')] = Inl ValueError"
  using normalize_keeps_integer_key
    [of "[(''usdot_number'', JStr '' -123 ''), (''liability_required_amount'', JStr ''$750,000'')]"]
    normalize_keeps_integer_key
    [of "[(''usdot_number'', JStr []), (''legal_name'', JStr ''ACME'')]"]
  by (simp add: amounts_ok_def amount_raw_fields_def amount_text_ok_def key_present_def
      key_integer_def py_int_of_str_def int_strip_def int_isspace_def max_str_digits_def digit_val_def
      is_null_text_def py_strip_def py_isspace_def py_upper_def upper_char_def
      decimal_of_str_def dec_unsigned_def dec_number_def dec_finite_def
      MAX_PREC_def MAX_EMAX_def MIN_ETINY_def py_lower_def lower_char_def is_digit_def)

text \<open>
  Against claim C1 as stated: a record whose natural key is the negative number \<open>-5\<close>
  is normalized without any exception, the key kept as it is.
\<close>

theorem normalize_negative_key_counterexample:
  "normalize [(''usdot_number'', JInt (- 5))] =
     Inr [(''usdot_number'', PInt (- 5)), (''legal_name'', PStr ''Unknown Carrier #-5''),
          (''raw_data'', PStr (''{'' @ [CHR 0x22] @ ''usdot_number'' @ [CHR 0x22] @ '': -5}''))]"
  by (simp add: normalize_def FIELD_MAPPING_def clean_value_def strip_value_def is_null_text_def
      except_value_type_def extract_cargo_carried_def cargo_fields_def dict_has_def
      str_of_int_def str_of_nat.simps json_dumps_def json_item_def json_string_def
      json_escape_char_def)

section \<open>Normalization: malformed single fields\<close>

text \<open>
  Claim C4 fails on a malformed monetary amount: \<open>Decimal("abc")\<close> raises
  \<open>decimal.InvalidOperation\<close>, which the handler
  \<open>except (ValueError, TypeError)\<close> of \<open>_clean_value\<close> does not catch, so
  \<open>normalize\<close> raises although the natural key is valid.
\<close>

theorem normalize_malformed_amount_raises:
  "normalize [(''usdot_number'', JStr ''123''), (''liability_required_amount'', JStr ''abc'')]
     = Inl InvalidOperation"
  by (simp add: normalize_def FIELD_MAPPING_def clean_value_def strip_value_def is_null_text_def
      except_value_type_def py_int_of_str_def int_strip_def int_isspace_def max_str_digits_def
      is_digit_def digit_val_def py_isspace_def
      py_strip_def py_upper_def py_lower_def upper_char_def lower_char_def
      strip_currency_def decimal_of_str_def dec_unsigned_def dec_number_def dec_finite_def
      MAX_PREC_def MAX_EMAX_def MIN_ETINY_def ends_with_def)

section \<open>Printing and reading integers\<close>

lemma digit_chars:
  assumes "n < 10"
  shows "is_digit (''0123456789'' ! n)" "digit_val (''0123456789'' ! n) = n"
        "\<not> py_isspace (''0123456789'' ! n)" "''0123456789'' ! n \<noteq> CHR ''_''"
proof -
  from assms have "n \<in> {0, 1, 2, 3, 4, 5, 6, 7, 8, 9}" by auto
  then show "is_digit (''0123456789'' ! n)" "digit_val (''0123456789'' ! n) = n"
        "\<not> py_isspace (''0123456789'' ! n)" "''0123456789'' ! n \<noteq> CHR ''_''"
    by (auto simp: is_digit_def digit_val_def py_isspace_def)
qed

lemma str_of_nat_digits: "list_all is_digit (str_of_nat n) \<and> str_of_nat n \<noteq> []"
proof (induction n rule: str_of_nat.induct)
  case (1 n)
  show ?case
  proof (cases "n < 10")
    case True
    then show ?thesis by (subst (1 2) str_of_nat.simps) (simp add: digit_chars)
  next
    case False
    with 1 show ?thesis by (subst (1 2) str_of_nat.simps) (simp add: digit_chars)
  qed
qed

lemma is_digit_not_space: "is_digit c \<Longrightarrow> \<not> py_isspace c"
  by (auto simp: is_digit_def py_isspace_def less_eq_char_def)

lemma is_digit_not_us: "is_digit c \<Longrightarrow> c \<noteq> CHR ''_''"
  by (auto simp: is_digit_def less_eq_char_def)

lemma py_digits_all_digits:
  "list_all is_digit s \<Longrightarrow> s \<noteq> [] \<Longrightarrow> py_digits s acc = Some (foldl (\<lambda>a c. 10 * a + digit_val c) acc s)"
proof (induction s arbitrary: acc)
  case Nil
  then show ?case by simp
next
  case (Cons c cs)
  then show ?case by (cases cs) (auto simp: is_digit_not_us)
qed

lemma value_str_of_nat: "foldl (\<lambda>a c. 10 * a + digit_val c) 0 (str_of_nat n) = n"
proof (induction n rule: str_of_nat.induct)
  case (1 n)
  show ?case
  proof (cases "n < 10")
    case True
    then show ?thesis by (subst str_of_nat.simps) (simp add: digit_chars)
  next
    case False
    with 1 show ?thesis by (subst str_of_nat.simps) (simp add: digit_chars)
  qed
qed

lemma is_digit_not_int_space: "is_digit c \<Longrightarrow> \<not> int_isspace c"
  by (auto simp: is_digit_def int_isspace_def less_eq_char_def)

lemma int_strip_digits: "list_all is_digit s \<Longrightarrow> int_strip s = s"
proof -
  assume a: "list_all is_digit s"
  then have 1: "dropWhile int_isspace s = s"
    by (cases s) (auto simp: is_digit_not_int_space)
  from a have "list_all is_digit (rev s)" by (simp add: list_all_iff)
  then have 2: "dropWhile int_isspace (rev s) = rev s"
    by (cases "rev s") (auto simp: is_digit_not_int_space)
  show ?thesis by (simp add: int_strip_def 1 2)
qed

lemma length_str_of_nat: "length (str_of_nat n) \<le> n + 1"
proof (induction n rule: str_of_nat.induct)
  case (1 n)
  show ?case
  proof (cases "n < 10")
    case True
    then show ?thesis by (subst str_of_nat.simps) simp
  next
    case False
    then have "n div 10 + 2 \<le> n + 1" by simp
    with 1 False show ?thesis by (subst str_of_nat.simps) simp
  qed
qed

lemma py_int_of_str_of_nat:
  assumes "n < max_str_digits"
  shows "py_int_of_str (str_of_nat n) = Some (int n)"
proof -
  have d: "list_all is_digit (str_of_nat n)" "str_of_nat n \<noteq> []"
    using str_of_nat_digits by auto
  then obtain c cs where s: "str_of_nat n = c # cs" by (cases "str_of_nat n") auto
  with d have "is_digit c" by simp
  then have c: "c \<noteq> CHR ''-''" "c \<noteq> CHR ''+''" by (auto simp: is_digit_def less_eq_char_def)
  have "length (filter is_digit (str_of_nat n)) \<le> length (str_of_nat n)" by simp
  also have "\<dots> \<le> n + 1" by (rule length_str_of_nat)
  finally have "length (filter is_digit (str_of_nat n)) \<le> n + 1" .
  with assms have "\<not> max_str_digits < length (filter is_digit (str_of_nat n))" by simp
  then have few: "\<not> max_str_digits < length (filter is_digit (c # cs))" unfolding s .
  have "py_digits (c # cs) 0 = Some n"
    using py_digits_all_digits[OF d, of 0] value_str_of_nat[of n] by (simp only: s)
  moreover have "int_strip (c # cs) = c # cs"
    using int_strip_digits[OF d(1)] by (simp only: s)
  ultimately have "py_int_of_str (c # cs) = Some (int n)"
    using c few unfolding py_int_of_str_def by simp
  then show ?thesis by (simp only: s)
qed

lemma split_ws_word:
  "list_all (\<lambda>c. \<not> py_isspace c) w \<Longrightarrow> split_ws (w @ rest) cur = split_ws rest (cur @ w)"
  by (induction w arbitrary: cur) auto

lemma py_split_insert_tag: "py_split (''INSERT 0 '' @ str_of_nat n) = [''INSERT'', ''0'', str_of_nat n]"
proof -
  have nsp: "list_all (\<lambda>c. \<not> py_isspace c) (str_of_nat n)"
    using str_of_nat_digits[of n] by (auto simp: list_all_iff is_digit_not_space)
  have "split_ws (str_of_nat n @ []) [] = split_ws [] ([] @ str_of_nat n)"
    using nsp by (rule split_ws_word)
  then have "split_ws (str_of_nat n) [] = [str_of_nat n]"
    using str_of_nat_digits[of n] by simp
  then show ?thesis by (simp add: py_split_def py_isspace_def)
qed

lemma count_result_insert_tag:
  "n < max_str_digits \<Longrightarrow>
   count_result (''INSERT 0 '' @ str_of_nat n) p = Inr (p\<lparr> total_inserted := total_inserted p + int n \<rparr>)"
  using py_split_insert_tag[of n]
  by (simp add: count_result_def int_at_def py_int_of_str_of_nat)

section \<open>Batch loader: path and counters\<close>

lemma key_of_row_of:
  "key_of (row_of r) = (case map_of r ''usdot_number'' of None \<Rightarrow> PNone | Some v \<Rightarrow> v)"
  by (simp add: row_of_def columns_def key_of_def)

lemma keys_upsert_row:
  "map fst (upsert_row t rw) = (if key_of rw \<in> set (map fst t) then map fst t else map fst t @ [key_of rw])"
  by (induction t rw rule: upsert_row.induct) auto

lemmas count_result_insert_tag' = count_result_insert_tag[simplified]

lemma process_batch_safe_path:
  assumes "records \<noteq> []" and "length records \<le> 100"
    and "PNone \<notin> set (map key_of (map row_of records))"
    and "distinct (map key_of (map row_of records))"
  shows "process_batch records is_update p =
     (None, p\<lparr> calls := calls p @ [Execute (map row_of records)],
               carriers := foldl upsert_row (carriers p) (map row_of records),
               total_inserted := total_inserted p + int (length records) \<rparr>)"
proof -
  have "execute (map row_of records) (carriers p) =
      Inr (''INSERT 0 '' @ str_of_nat (length records),
           foldl upsert_row (carriers p) (map row_of records))"
    using assms(3,4) unfolding execute_def by simp
  moreover from assms(2) have "length records < max_str_digits"
    by (simp add: max_str_digits_def)
  ultimately show ?thesis
    using assms(1,2) by (simp add: process_batch_def Let_def count_result_insert_tag')
qed

lemma count_result_calls: "count_result r p = Inr p2 \<Longrightarrow> calls p2 = calls p"
  by (auto simp: count_result_def split: if_splits list.splits sum.splits)

lemma process_batch_calls:
  assumes "records \<noteq> []"
  shows "calls (snd (process_batch records is_update p)) =
     calls p @ [if length records > 100 then CopyRecordsToTable (map row_of records)
                else Execute (map row_of records)]"
  using assms
  by (auto simp: process_batch_def Let_def batch_failed_def dest: count_result_calls
      split: sum.splits prod.splits)

lemma two_keys: "map key_of (map row_of two_carriers) = [PInt 1, PInt 2]"
  by (simp add: two_carriers_def key_of_row_of)

lemma after_first_eq:
  "after_first = (new_pipeline 1000 100 [])\<lparr> calls := [Execute (map row_of two_carriers)],
      carriers := foldl upsert_row [] (map row_of two_carriers), total_inserted := 2 \<rparr>"
  unfolding after_first_def
  by (subst process_batch_safe_path) (simp_all add: two_keys, simp_all add: two_carriers_def new_pipeline_def key_of_row_of)

text \<open>
  Claim C6 fails on the second load of a batch. The statement the safe path executes is an
  \<open>INSERT\<close>, so its result always begins with \<open>INSERT\<close> and the loader adds the
  whole count to \<open>total_inserted\<close>: after loading the same two carriers twice the
  table still holds two rows, but four inserts and no update have been counted.
\<close>

theorem second_load_counted_as_inserts:
  "total_inserted after_first = 2 \<and> total_updated after_first = 0 \<and>
   map fst (carriers after_first) = [PInt 1, PInt 2] \<and>
   total_inserted after_second = 4 \<and> total_updated after_second = 0 \<and>
   map fst (carriers after_second) = [PInt 1, PInt 2]"
proof -
  have k1: "map fst (carriers after_first) = [PInt 1, PInt 2]"
    using two_keys by (simp add: after_first_eq two_carriers_def keys_upsert_row)
  have s2: "after_second = after_first\<lparr> calls := calls after_first @ [Execute (map row_of two_carriers)],
      carriers := foldl upsert_row (carriers after_first) (map row_of two_carriers),
      total_inserted := total_inserted after_first + 2 \<rparr>"
    unfolding after_second_def
    by (subst process_batch_safe_path) (simp_all add: two_keys, simp_all add: two_carriers_def key_of_row_of)
  have k2: "map fst (foldl upsert_row (carriers after_first) (map row_of two_carriers)) = [PInt 1, PInt 2]"
    using two_keys k1 by (simp add: two_carriers_def keys_upsert_row)
  have "total_inserted after_first = 2" "total_updated after_first = 0"
    by (simp_all add: after_first_eq new_pipeline_def)
  then show ?thesis
    by (simp add: s2 k1 k2)
qed

lemma keys_updates_101:
  "map key_of (map row_of updates_101) = map (\<lambda>i. PInt (int i)) [1..<102]"
  by (simp add: updates_101_def key_of_row_of comp_def)

lemma copy_updates_101:
  "copy_records_to_table (map row_of updates_101) one_carrier = Inl UniqueViolationError"
proof -
  have "PNone \<notin> set (map key_of (map row_of updates_101))"
    unfolding keys_updates_101 by auto
  moreover have "PInt 1 \<in> set (map key_of (map row_of updates_101))"
    unfolding keys_updates_101 by (auto simp: image_iff intro: bexI[of _ 1])
  ultimately show ?thesis
    unfolding copy_records_to_table_def one_carrier_def by (simp del: set_map) 
qed

text \<open>
  Claim C3 fails for a large batch of an incremental run. \<open>_process_batch\<close> receives
  \<open>is_update=True\<close> and never reads it: a batch of 101 records goes through the bulk
  append, which fails on the carrier that already exists, and the whole batch is counted
  as errors.
\<close>

theorem incremental_batch_takes_copy_path:
  "process_batch updates_101 True (new_pipeline 1000 100 one_carrier) =
     (Some UniqueViolationError,
      (new_pipeline 1000 100 one_carrier)
        \<lparr> calls := [CopyRecordsToTable (map row_of updates_101)], total_errors := 101 \<rparr>)"
proof -
  have "length updates_101 = 101" by (simp add: updates_101_def)
  then show ?thesis
    using copy_updates_101
    by (auto simp: process_batch_def Let_def batch_failed_def new_pipeline_def)
qed

section \<open>Orchestrator: the error budget\<close>





lemma full_page_append:
  assumes "full_page records p buf = (p1, buf1, True)"
  shows "full_page (records @ later) p buf = (p1, buf1, True)"
  using assms
proof (induction records arbitrary: p buf)
  case Nil
  then show ?case by simp
next
  case (Cons rcd rest)
  obtain q qbuf qb where q: "full_record rcd p buf = (q, qbuf, qb)"
    by (cases "full_record rcd p buf") auto
  with Cons show ?case by (cases qb) auto
qed



lemma normalize_bad: "normalize bad_record = Inl ValueError"
  by (simp add: bad_record_def normalize_def FIELD_MAPPING_def clean_value_def strip_value_def
      is_null_text_def py_strip_def py_isspace_def py_upper_def upper_char_def ends_with_def
      extract_cargo_carried_def cargo_fields_def dict_has_def)

lemma normalize_good: "normalize good_record = Inr good_normalized"
  by (simp add: good_record_def good_normalized_def normalize_def FIELD_MAPPING_def clean_value_def
      strip_value_def is_null_text_def except_value_type_def extract_cargo_carried_def
      cargo_fields_def dict_has_def str_of_int_def str_of_nat.simps)





lemma key_good: "key_of (row_of good_normalized) = PInt 7"
  by (simp add: key_of_row_of good_normalized_def)






text \<open>
  When the error that meets the budget is a failed batch write, the buffer is not
  emptied: the write after the loops fails again and the run ends with its exception.
  Here the batch of two holds a record whose key is no number, stored as \<open>None\<close>,
  which the table rejects.
\<close>

lemma normalize_text_key: "normalize text_key_record = Inr text_key_normalized"
  by (simp add: text_key_record_def text_key_normalized_def normalize_def FIELD_MAPPING_def
      clean_value_def strip_value_def is_null_text_def except_value_type_def
      extract_cargo_carried_def cargo_fields_def dict_has_def py_strip_def py_isspace_def
      py_upper_def upper_char_def py_int_of_str_def int_strip_def int_isspace_def
      max_str_digits_def is_digit_def)

lemma key_text_key: "key_of (row_of text_key_normalized) = PNone"
  by (simp add: key_of_row_of text_key_normalized_def)

lemma process_batch_null_key:
  assumes "length records \<le> 100" and "PNone \<in> set (map key_of (map row_of records))"
  shows "process_batch records u p =
     (Some NotNullViolationError,
      p\<lparr> calls := calls p @ [Execute (map row_of records)],
         total_errors := total_errors p + int (length records) \<rparr>)"
proof -
  from assms(2) have "records \<noteq> []" by auto
  moreover have "execute (map row_of records) (carriers p) = Inl NotNullViolationError"
    using assms(2) by (simp add: execute_def)
  ultimately show ?thesis
    using assms(1) by (simp add: process_batch_def Let_def batch_failed_def)
qed

lemma failed_write_ends_run:
  "fst (run_full_ingestion [[text_key_record, good_record]] (new_pipeline 2 3 []))
     = Inl NotNullViolationError \<and>
   total_errors (snd (run_full_ingestion [[text_key_record, good_record]] (new_pipeline 2 3 []))) = 5 \<and>
   carriers (snd (run_full_ingestion [[text_key_record, good_record]] (new_pipeline 2 3 []))) = []"
proof -
  let ?buf = "[text_key_normalized, good_normalized]"
  let ?p0 = "(new_pipeline 2 3 [])\<lparr> total_fetched := 2 \<rparr>"
  have k: "PNone \<in> set (map key_of (map row_of ?buf))" by (simp add: key_text_key)
  have 1: "full_record text_key_record ?p0 [] = (?p0, [text_key_normalized], False)"
    by (simp add: full_record_def normalize_text_key Let_def new_pipeline_def)
  have 2: "full_record good_record ?p0 [text_key_normalized] =
      (?p0\<lparr> calls := [Execute (map row_of ?buf)], total_errors := 3,
             error_records := [(Some (JInt 7), NotNullViolationError)] \<rparr>, ?buf, True)"
    using process_batch_null_key[OF _ k, of False ?p0]
    by (simp add: full_record_def normalize_good Let_def record_failed_def)
       (simp add: new_pipeline_def good_record_def)
  have 3: "full_pages [[text_key_record, good_record]] (new_pipeline 2 3 []) [] =
      (?p0\<lparr> calls := [Execute (map row_of ?buf)], total_errors := 3,
             error_records := [(Some (JInt 7), NotNullViolationError)] \<rparr>, ?buf, True)"
    using 1 2 by (simp add: new_pipeline_def)
  show ?thesis
    using process_batch_null_key[OF _ k, of False]
    by (simp add: run_full_ingestion_def 3 flush_def del: full_pages.simps full_page.simps)
       (simp add: new_pipeline_def)
qed

text \<open>
  The incremental run counts errors and never compares them with \<open>max_errors\<close>: with
  a budget of two it goes on after the third rejected record.
\<close>

lemma update_record_bad:
  "update_record bad_record p buf = (p\<lparr> total_errors := total_errors p + 1 \<rparr>, buf)"
  by (simp add: update_record_def normalize_bad)

lemma update_record_good:
  "\<not> batch_size p \<le> int (length buf) + 1 \<Longrightarrow>
   update_record good_record p buf = (p, buf @ [good_normalized])"
  by (simp add: update_record_def normalize_good Let_def)

lemma incremental_run_ignores_budget:
  "run_incremental_update [[bad_record, bad_record, bad_record, good_record]] (new_pipeline 10 2 []) =
     (Inr (), (new_pipeline 10 2 [])\<lparr> total_fetched := 4, total_errors := 3,
        calls := [Execute [row_of good_normalized]],
        carriers := [(PInt 7, row_of good_normalized)], total_inserted := 1 \<rparr>)"
proof -
  have "update_pages [[bad_record, bad_record, bad_record, good_record]] (new_pipeline 10 2 []) [] =
      ((new_pipeline 10 2 [])\<lparr> total_fetched := 4, total_errors := 3 \<rparr>, [good_normalized])"
    by (simp add: update_record_bad update_record_good new_pipeline_def)
  then show ?thesis
    by (simp add: run_incremental_update_def flush_def process_batch_safe_path key_good
        new_pipeline_def)
qed

section \<open>Initial load: the call of \<open>run_full_ingestion\<close>\<close>

lemma limit_is_no_parameter:
  "bind_keywords run_full_ingestion_parameters [''progress_callback'', ''limit''] = Inl TypeError"
  by (simp add: bind_keywords_def run_full_ingestion_parameters_def)

text \<open>
  Claim C5, as the code has it. No call of \<open>run_initial_load\<close> ever ingests a record,
  and every call that reaches the ingestion step (the database initialises and closes,
  and the load is not cancelled at the prompt nor stopped by a failing count request)
  raises \<open>TypeError\<close>, whatever \<open>limit\<close> and \<open>batch_size\<close> are.
\<close>

theorem run_initial_load_never_loads:
  "(\<forall>p. run_initial_load limit bsize env \<noteq> Loaded p) \<and>
   (reaches_ingestion limit env \<longrightarrow> run_initial_load limit bsize env = Raised TypeError)"
  by (auto simp: run_initial_load_def finally_close_def limit_is_no_parameter reaches_ingestion_def
      limit_given_def split: option.splits sum.splits if_splits)

text \<open>A limited load of 1000 records raises \<open>TypeError\<close>.\<close>

theorem run_initial_load_never_loads_witness:
  "reaches_ingestion (Some 1000) quiet_env \<and>
   run_initial_load (Some 1000) 1000 quiet_env = Raised TypeError"
  using run_initial_load_never_loads[of "Some 1000" 1000 quiet_env]
  by (simp add: reaches_ingestion_def quiet_env_def limit_given_def)

text \<open>
  Against claim C5 as stated: without a limit and with 2.2 million carriers reported, an
  operator who answers \<open>n\<close> makes the call return before the ingestion is started;
  no \<open>TypeError\<close> is raised.
\<close>

theorem run_initial_load_cancelled_counterexample:
  "run_initial_load None 1000 quiet_env = Cancelled"
  by (simp add: run_initial_load_def finally_close_def quiet_env_def limit_given_def
      py_lower_def lower_char_def)

section \<open>Bulk fetcher: when the checkpoint is written\<close>

lemma tenth_same_decade: "n mod 10 \<noteq> 0 \<Longrightarrow> n div 10 = (n - 1) div 10" for n :: nat
proof -
  assume a: "n mod 10 \<noteq> 0"
  have n: "n = n div 10 * 10 + n mod 10" by simp
  from a have "n - 1 = n div 10 * 10 + (n mod 10 - 1)" using n by linarith
  moreover have "n mod 10 - 1 < 10" using mod_less_divisor[of 10 n] by linarith
  ultimately have "(n - 1) div 10 = n div 10"
    by (metis div_mult_self3 div_less add.right_neutral zero_less_numeral zero_neq_numeral)
  then show ?thesis by simp
qed

lemma tenth_positive: "n mod 10 \<noteq> 0 \<Longrightarrow> 1 \<le> n" for n :: nat
  by (cases n) auto

lemma tenth_exact: "n mod 10 = 0 \<Longrightarrow> n div 10 * 10 = n" for n :: nat
  by auto

lemma beyond_checkpoint: "1 \<le> n \<Longrightarrow> n - ((n - 1) div 10 * 10 + 1) = (n - 1) mod 10" for n :: nat
proof -
  assume "1 \<le> n"
  then have "n - ((n - 1) div 10 * 10 + 1) = (n - 1) - (n - 1) div 10 * 10" by simp
  also have "\<dots> = (n - 1) mod 10" by (rule minus_div_mult_eq_mod)
  finally show ?thesis .
qed

lemma save_batch_steps_eq:
  assumes "batch_num f \<notin> fst ` set (batch_files f)"
  shows "save_batch_steps batch f =
     (let g = f\<lparr> consecutive_empty := 0 \<rparr>;
          f1 = g\<lparr> batch_files := batch_files f @ [(batch_num f, Partial)] \<rparr>;
          f2 = g\<lparr> batch_files := batch_files f @ [(batch_num f, Complete batch)] \<rparr>;
          f3 = f2\<lparr> collected := collected f @ batch, fetched := fetched f + length batch \<rparr>
      in [f1, f2, f3] @
         (if batch_num f mod 10 = 0
          then [f3\<lparr> checkpoint := Unreadable \<rparr>,
                f3\<lparr> checkpoint := Written (offset f + fetch_size) (fetched f + length batch) \<rparr>]
          else []))"
  using assms
  by (simp add: save_batch_steps_def open_batch_file_def
      dump_batch_file_def save_checkpoint_def open_checkpoint_def dump_checkpoint_def Let_def
      dict_set_new dict_set_last)

lemma save_batch_eq:
  assumes "batch_num f \<notin> fst ` set (batch_files f)"
  shows "save_batch batch f =
     f\<lparr> consecutive_empty := 0,
        batch_files := batch_files f @ [(batch_num f, Complete batch)],
        collected := collected f @ batch, fetched := fetched f + length batch,
        checkpoint := (if batch_num f mod 10 = 0
                       then Written (offset f + fetch_size) (fetched f + length batch)
                       else checkpoint f),
        offset := offset f + fetch_size, batch_num := batch_num f + 1 \<rparr>"
  by (simp add: save_batch_def save_batch_steps_eq[OF assms] Let_def)

lemma save_batch_checkpoint:
  "checkpoint (save_batch b g) =
     (if batch_num g mod 10 = 0 then Written (offset g + fetch_size) (fetched g + length b)
      else checkpoint g)"
  by (simp add: save_batch_def save_batch_steps_def open_batch_file_def
      dump_batch_file_def save_checkpoint_def open_checkpoint_def dump_checkpoint_def Let_def)

lemma count_saved:
  assumes "map fst fs = [0..<m]" and "Partial \<notin> snd ` set fs"
  shows "length (filter (\<lambda>(n, c). k \<le> n \<and> c \<noteq> Partial) fs) = m - k"
proof -
  have "filter (\<lambda>(n, c). k \<le> n \<and> c \<noteq> Partial) fs = filter (\<lambda>(n, c). k \<le> n) fs"
    using assms(2) by (intro filter_cong) (auto simp: image_iff)
  then have "length (filter (\<lambda>(n, c). k \<le> n \<and> c \<noteq> Partial) fs)
      = length (filter (\<lambda>n. k \<le> n) (map fst fs))"
    by (simp add: filter_map comp_def case_prod_unfold)
  also have "\<dots> = length (filter (\<lambda>n. k \<le> n) [0..<m])" by (simp only: assms(1))
  also have "\<dots> = card {n. n < m \<and> k \<le> n}"
    by (simp add: length_filter_conv_card) (rule arg_cong[where f = card], auto)
  also have "{n. n < m \<and> k \<le> n} = {k..<m}" by auto
  finally show ?thesis by simp
qed

lemma saved_below:
  assumes "map fst fs = [0..<m]" and "Partial \<notin> snd ` set fs" and "n < m"
  shows "\<exists>c. map_of (fs @ later) n = Some c \<and> c \<noteq> Partial"
proof -
  from assms(1,3) have "n \<in> fst ` set fs" by (metis atLeast0LessThan lessThan_iff set_map set_upt)
  then obtain c where c: "map_of fs n = Some c" by (metis domD dom_map_of_conv_image_fst)
  then have "(n, c) \<in> set fs" by (rule map_of_SomeD)
  with assms(2) have "c \<noteq> Partial" by (metis image_eqI snd_conv)
  with c show ?thesis by (simp add: map_add_Some_iff)
qed

lemma resume_le:
  assumes "ckpt_inv f"
  shows "resume_batch f \<le> batch_num f \<and> batch_num f - resume_batch f \<le> 9"
proof (cases "checkpoint f")
  case Absent
  with assms show ?thesis by (simp add: ckpt_inv_def resume_batch_def load_checkpoint_def)
next
  case Unreadable
  with assms show ?thesis by (simp add: ckpt_inv_def)
next
  case (Written off cnt)
  with assms have bn: "1 \<le> batch_num f"
    and off: "off = ((batch_num f - 1) div 10 * 10 + 1) * fetch_size"
    by (auto simp: ckpt_inv_def)
  have r: "resume_batch f = (batch_num f - 1) div 10 * 10 + 1"
    by (simp add: resume_batch_def load_checkpoint_def Written off fetch_size_def)
  have "(batch_num f - 1) div 10 * 10 \<le> batch_num f - 1" by simp
  with bn have 1: "resume_batch f \<le> batch_num f" unfolding r by linarith
  have "batch_num f - resume_batch f = (batch_num f - 1) mod 10"
    unfolding r using bn by (rule beyond_checkpoint)
  moreover have "(batch_num f - 1) mod 10 < 10" by simp
  ultimately show ?thesis using 1 by linarith
qed

lemma crash_ok_files:
  assumes "map fst fs = [0..<m]" and "Partial \<notin> snd ` set fs"
    and "batch_files s = fs @ later" and "length later \<le> 1"
    and "resume_batch s \<le> m" and "m - resume_batch s \<le> 9"
  shows "crash_ok s"
proof -
  have "saved s n" if "n < resume_batch s" for n
  proof -
    from that assms(5) have "n < m" by simp
    from saved_below[OF assms(1,2) this, of later]
    obtain c where "map_of (batch_files s) n = Some c" "c \<noteq> Partial"
      unfolding assms(3) by blast
    then show ?thesis by (simp add: saved_def)
  qed
  moreover have "refetched s \<le> 10"
  proof -
    have "refetched s = length (filter (\<lambda>(n, c). resume_batch s \<le> n \<and> c \<noteq> Partial) fs)
        + length (filter (\<lambda>(n, c). resume_batch s \<le> n \<and> c \<noteq> Partial) later)"
      by (simp add: refetched_def assms(3))
    also have "\<dots> \<le> (m - resume_batch s) + length later"
      using count_saved[OF assms(1,2), of "resume_batch s"] by simp
    finally show ?thesis using assms(4,6) by linarith
  qed
  ultimately show ?thesis by (simp add: crash_ok_def)
qed

lemma ckpt_inv_fresh_key: "ckpt_inv f \<Longrightarrow> batch_num f \<notin> fst ` set (batch_files f)"
proof -
  assume "ckpt_inv f"
  then have "map fst (batch_files f) = [0..<batch_num f]" by (simp add: ckpt_inv_def)
  then have "fst ` set (batch_files f) = {0..<batch_num f}" by (metis set_map set_upt)
  then show ?thesis by simp
qed

lemma crash_ok_head:
  assumes "ckpt_inv f"
  shows "crash_ok f"
  using assms resume_le[OF assms]
  by (intro crash_ok_files[where fs = "batch_files f" and m = "batch_num f" and later = "[]"])
     (auto simp: ckpt_inv_def)

lemma crash_ok_steps:
  assumes "ckpt_inv f"
  shows "\<forall>s \<in> set (save_batch_steps b f). crash_ok s"
proof -
  note k = ckpt_inv_fresh_key[OF assms]
  from assms have fs: "map fst (batch_files f) = [0..<batch_num f]"
      "Partial \<notin> snd ` set (batch_files f)"
    by (auto simp: ckpt_inv_def)
  note r = resume_le[OF assms]
  have same: "resume_batch (g :: 'a fetcher) = resume_batch f" if "checkpoint g = checkpoint f" for g
    using that by (simp add: resume_batch_def)
  have mid: "crash_ok g"
    if "checkpoint g = checkpoint f" "batch_files g = batch_files f @ [(batch_num f, c)]" for g c
    using r same[OF that(1)]
    by (intro crash_ok_files[OF fs, where later = "[(batch_num f, c)]"]) (auto simp: that(2))
  have unreadable: "crash_ok g" if "checkpoint g = Unreadable" for g :: "'a fetcher"
    using that by (simp add: crash_ok_def resume_batch_def load_checkpoint_def)
  have written: "crash_ok g"
    if "checkpoint g = Written (offset f + fetch_size) cnt"
       "batch_files g = batch_files f @ [(batch_num f, Complete b)]" for g cnt
  proof -
    from assms have "offset f = batch_num f * fetch_size" by (simp add: ckpt_inv_def)
    then have rb: "resume_batch g = batch_num f + 1"
      by (simp add: resume_batch_def load_checkpoint_def that(1) fetch_size_def)
    have fs': "map fst (batch_files g) = [0..<batch_num f + 1]" "Partial \<notin> snd ` set (batch_files g)"
      using fs by (auto simp: that(2))
    show ?thesis
      by (intro crash_ok_files[OF fs', where later = "[]"]) (simp_all add: rb)
  qed
  show ?thesis
    unfolding save_batch_steps_eq[OF k] Let_def
    by (auto intro: mid unreadable written)
qed

lemma ckpt_inv_save_batch:
  assumes "ckpt_inv f"
  shows "ckpt_inv (save_batch b f)"
proof (cases "batch_num f mod 10 = 0")
  case True
  then have "batch_num f div 10 * 10 = batch_num f" by (rule tenth_exact)
  with assms True show ?thesis
    unfolding save_batch_eq[OF ckpt_inv_fresh_key[OF assms]]
    by (auto simp: ckpt_inv_def split: checkpoint_file.splits)
next
  case False
  then have "batch_num f div 10 = (batch_num f - 1) div 10" "1 \<le> batch_num f"
    by (rule tenth_same_decade, rule tenth_positive)
  with assms False show ?thesis
    unfolding save_batch_eq[OF ckpt_inv_fresh_key[OF assms]]
    by (auto simp: ckpt_inv_def split: checkpoint_file.splits)
qed

lemma crash_ok_trace:
  "ckpt_inv f \<Longrightarrow> \<forall>s \<in> set (fetch_all_trace total_count responses f). crash_ok s"
proof (induction responses arbitrary: f)
  case Nil
  then show ?case by (simp add: crash_ok_head)
next
  case (Cons b bs)
  have e: "ckpt_inv (f\<lparr> consecutive_empty := consecutive_empty f + 1 \<rparr>)"
    using Cons.prems unfolding ckpt_inv_def by (cases "checkpoint f") auto
  show ?case
    using crash_ok_head[OF Cons.prems] crash_ok_head[OF e] Cons.IH[OF e]
      crash_ok_steps[OF Cons.prems, of b] Cons.IH[OF ckpt_inv_save_batch[OF Cons.prems, of b]]
    by auto
qed

lemma ckpt_inv_fresh: "ckpt_inv fresh_fetcher"
  by (simp add: ckpt_inv_def fresh_fetcher_def)

lemmas fetcher_steps =
  save_batch_steps_def save_batch_def open_batch_file_def dump_batch_file_def
  save_checkpoint_def open_checkpoint_def dump_checkpoint_def fetch_size_def Let_def

lemma eleven_trace_length:
  "length (fetch_all_trace 2200000 eleven_batches (fresh_fetcher :: unit fetcher)) = 49"
  by (simp add: eleven_batches_def fresh_fetcher_def fetcher_steps)

lemma crash_before_checkpoint_eq:
  "crash_before_checkpoint =
     \<lparr> offset = 500000, batch_num = 10, consecutive_empty = 0, fetched = 10,
       collected = [(), (), (), (), (), (), (), (), (), ()],
       batch_files = [(0, Complete [()]), (1, Complete [()]), (2, Complete [()]),
         (3, Complete [()]), (4, Complete [()]), (5, Complete [()]), (6, Complete [()]),
         (7, Complete [()]), (8, Complete [()]), (9, Complete [()]), (10, Complete [()])],
       checkpoint = Written 50000 1 \<rparr>"
  by (simp add: crash_before_checkpoint_def eleven_batches_def fresh_fetcher_def fetcher_steps)

lemma crash_inside_checkpoint_eq:
  "crash_inside_checkpoint =
     \<lparr> offset = 500000, batch_num = 10, consecutive_empty = 0, fetched = 11,
       collected = [(), (), (), (), (), (), (), (), (), (), ()],
       batch_files = [(0, Complete [()]), (1, Complete [()]), (2, Complete [()]),
         (3, Complete [()]), (4, Complete [()]), (5, Complete [()]), (6, Complete [()]),
         (7, Complete [()]), (8, Complete [()]), (9, Complete [()]), (10, Complete [()])],
       checkpoint = Unreadable \<rparr>"
  by (simp add: crash_inside_checkpoint_def eleven_batches_def fresh_fetcher_def fetcher_steps)

text \<open>
  Claim C7, as the code has it. An iteration writes a new checkpoint, overwriting the
  previous one, only when the number of its batch is a multiple of 10, after the file of
  the batch is written; otherwise the checkpoint file is left as it is. In every state
  of the loop of a run started on an empty disk, the checkpoint does not point beyond a
  batch that is not saved, and, as long as the checkpoint file is not in the middle of
  being rewritten, a restart fetches again at most ten batches that were already saved.
\<close>

theorem checkpoint_every_tenth_batch:
  "checkpoint (save_batch b g) =
     (if batch_num g mod 10 = 0 then Written (offset g + fetch_size) (fetched g + length b)
      else checkpoint g) \<and>
   (\<forall>s \<in> set (fetch_all_trace total_count responses fresh_fetcher).
      (\<forall>n < resume_batch s. saved s n) \<and> (checkpoint s \<noteq> Unreadable \<longrightarrow> refetched s \<le> 10))"
  using crash_ok_trace[OF ckpt_inv_fresh, of total_count responses]
  by (simp add: save_batch_checkpoint crash_ok_def)

text \<open>
  The bound is met: when the file of batch 10 is written and its checkpoint not yet, the
  checkpoint is still the one of batch 0 and a restart fetches batches 1 to 10 again.
\<close>

theorem checkpoint_every_tenth_batch_witness:
  "crash_before_checkpoint \<in> set (fetch_all_trace 2200000 eleven_batches fresh_fetcher) \<and>
   checkpoint crash_before_checkpoint = Written 50000 1 \<and>
   resume_batch crash_before_checkpoint = 1 \<and>
   saved crash_before_checkpoint 0 \<and>
   refetched crash_before_checkpoint = 10"
proof -
  have m: "crash_before_checkpoint \<in> set (fetch_all_trace 2200000 eleven_batches fresh_fetcher)"
    unfolding crash_before_checkpoint_def by (rule nth_mem) (simp add: eleven_trace_length)
  from checkpoint_every_tenth_batch[of "[]" fresh_fetcher 2200000 eleven_batches] m
  have "refetched crash_before_checkpoint \<le> 10"
    by (auto simp: crash_before_checkpoint_eq)
  then show ?thesis
    using m
    by (simp add: crash_before_checkpoint_eq resume_batch_def load_checkpoint_def
        fetch_size_def saved_def refetched_def)
qed

text \<open>
  Against claim C7 as stated: after ten saved batches the checkpoint is still the one
  written after batch 0, and a restart fetches batches 1 to 9 again.
\<close>

theorem checkpoint_lag_counterexample:
  "checkpoint (last (fetch_all_trace 2200000 ten_batches fresh_fetcher)) = Written 50000 1 \<and>
   batch_num (last (fetch_all_trace 2200000 ten_batches fresh_fetcher)) = 10 \<and>
   map fst (batch_files (last (fetch_all_trace 2200000 ten_batches fresh_fetcher)))
     = [0, 1, 2, 3, 4, 5, 6, 7, 8, 9] \<and>
   refetched (last (fetch_all_trace 2200000 ten_batches fresh_fetcher)) = 9"
  by (simp add: ten_batches_def fresh_fetcher_def fetcher_steps refetched_def resume_batch_def
      load_checkpoint_def)

text \<open>
  A crash between the two statements of \<open>save_checkpoint\<close> leaves a checkpoint file
  that \<open>load_checkpoint\<close> reads as no checkpoint: the restart begins at offset 0 and
  fetches all eleven saved batches again.
\<close>

lemma crash_inside_checkpoint_write:
  "crash_inside_checkpoint \<in> set (fetch_all_trace 2200000 eleven_batches fresh_fetcher) \<and>
   checkpoint crash_inside_checkpoint = Unreadable \<and>
   load_checkpoint (checkpoint crash_inside_checkpoint) = (0, 0) \<and>
   refetched crash_inside_checkpoint = 11"
proof -
  have m: "crash_inside_checkpoint \<in> set (fetch_all_trace 2200000 eleven_batches fresh_fetcher)"
    unfolding crash_inside_checkpoint_def by (rule nth_mem) (simp add: eleven_trace_length)
  then show ?thesis
    by (simp add: crash_inside_checkpoint_eq resume_batch_def load_checkpoint_def
        fetch_size_def refetched_def)
qed

section \<open>The archived input: \<open>json.loads\<close> after \<open>json.dumps\<close>\<close>

text \<open>The two functions on concrete texts: the escapes written, and a text with spaces and a repeated key read.\<close>

lemma json_dumps_named_carrier:
  "json_dumps named_carrier =
     [CHR ''{'', CHR 0x22] @ ''usdot_number'' @ [CHR 0x22] @ '': 80, '' @ [CHR 0x22] @ ''legal_name''
       @ [CHR 0x22] @ '': '' @ [CHR 0x22, CHR ''A'', CHR 0x5C, CHR 0x22, CHR 0x5C, CHR 0x5C, CHR 0x5C]
       @ ''n'' @ [CHR 0x5C] @ ''u00e9b'' @ [CHR 0x22] @ ''}''"
  by (simp add: named_carrier_def json_dumps_def json_item_def json_string_def
      json_escape_char_def str_of_int_def str_of_nat.simps hex_digit_def)

lemma json_loads_spaced:
  "json_loads ('' { '' @ [CHR 0x22] @ ''a'' @ [CHR 0x22] @ '' : -12 , '' @ [CHR 0x22] @ ''b''
                @ [CHR 0x22] @ '':true, '' @ [CHR 0x22] @ ''a'' @ [CHR 0x22] @ '': null } '')
     = Some [(''a'', JNull), (''b'', JBool True)]"
  by (simp add: json_loads_def members.simps scan_member_def skip_ws_def json_ws_def
      scan_value_def scan_int_def scan_nat_def is_digit_def nat_of_digits_def digit_val_def
      prepend_def)

lemma hex_digits:
  assumes "n < 16"
  shows "hex_val (hex_digit n) = Some n"
proof -
  from assms have "n \<in> {0, 1, 2, 3, 4, 5, 6, 7, 8, 9, 10, 11, 12, 13, 14, 15}" by simp arith
  then show ?thesis by (auto simp: hex_val_def hex_digit_def)
qed

lemma hex4_of_char:
  "hex4 (CHR ''0'') (CHR ''0'') (hex_digit (of_char c div 16)) (hex_digit (of_char c mod 16))
     = Some (of_char c)"
proof -
  have "(of_char c :: nat) < 256" by simp
  then have "(of_char c :: nat) div 16 < 16" by arith
  then show ?thesis by (simp add: hex4_def hex_digits) (simp add: hex_val_def)
qed

lemma printable_not_control: "CHR '' '' \<le> c \<Longrightarrow> \<not> (of_char c :: nat) < 32"
  by (simp add: less_eq_char_def)

lemma scan_string_escaped:
  "scan_string (concat (map json_escape_char s) @ CHR 0x22 # rest) = Some (s, rest)"
proof (induction s)
  case Nil
  show ?case by simp
next
  case (Cons c cs)
  show ?case
    using Cons.IH
    by (simp add: json_escape_char_def unescape_def prepend_def hex4_of_char
                  printable_not_control)
qed


lemma str_of_nat_first: "str_of_nat n = c # cs \<Longrightarrow> is_digit c \<and> (c = CHR ''0'' \<longrightarrow> n = 0) \<and> list_all is_digit cs"
proof (induction n arbitrary: c cs rule: str_of_nat.induct)
  case (1 n)
  show ?case
  proof (cases "n < 10")
    case True
    then have "n \<in> {0, 1, 2, 3, 4, 5, 6, 7, 8, 9}" by simp arith
    with "1.prems" show ?thesis
      by (subst (asm) str_of_nat.simps) (auto simp: is_digit_def)
  next
    case False
    obtain d ds where d: "str_of_nat (n div 10) = d # ds"
      using str_of_nat_digits[of "n div 10"] by (cases "str_of_nat (n div 10)") auto
    from False have pos: "n div 10 \<noteq> 0" by simp
    from "1.IH"[OF False d] pos have dd: "is_digit d" "d \<noteq> CHR ''0''" "list_all is_digit ds"
      by auto
    from "1.prems" False d have "c = d" "cs = ds @ [''0123456789'' ! (n mod 10)]"
      by (subst (asm) str_of_nat.simps, simp)+
    with dd show ?thesis by (simp add: digit_chars)
  qed
qed

lemma takeWhile_digits:
  assumes "list_all is_digit ds" "rest = [] \<or> \<not> is_digit (hd rest)"
  shows "takeWhile is_digit (ds @ rest) = ds" "dropWhile is_digit (ds @ rest) = rest"
proof -
  from assms(2) have t: "takeWhile is_digit rest = []" and d: "dropWhile is_digit rest = rest"
    by (cases rest; auto)+
  from assms(1) have a: "\<forall>x\<in>set ds. is_digit x" by (simp add: list_all_iff)
  show "takeWhile is_digit (ds @ rest) = ds" using a t by (simp add: takeWhile_append2)
  show "dropWhile is_digit (ds @ rest) = rest" using a d by (simp add: dropWhile_append2)
qed

lemma scan_nat_str_of_nat:
  assumes "rest = [] \<or> \<not> is_digit (hd rest)"
  shows "scan_nat (str_of_nat n @ rest) = Some (n, rest)"
proof -
  obtain c cs where s: "str_of_nat n = c # cs"
    using str_of_nat_digits[of n] by (cases "str_of_nat n") auto
  note f = str_of_nat_first[OF s]
  show ?thesis
  proof (cases "c = CHR ''0''")
    case True
    with f have "n = 0" by simp
    then have "str_of_nat n = ''0''" by (simp add: str_of_nat.simps)
    then show ?thesis using \<open>n = 0\<close> by (simp add: scan_nat_def)
  next
    case False
    have "nat_of_digits (c # cs) = n"
      using value_str_of_nat[of n] s by (simp add: nat_of_digits_def)
    then show ?thesis
      using False f s takeWhile_digits[OF _ assms, of cs]
      by (simp add: scan_nat_def)
  qed
qed

lemma scan_int_str_of_int:
  assumes "follows_value rest"
  shows "scan_int (str_of_int i @ rest) = Some (JInt i, rest)"
proof -
  from assms have r: "rest = [] \<or> \<not> is_digit (hd rest)"
    by (auto simp: follows_value_def is_digit_def)
  obtain c cs where s: "str_of_nat (nat i) = c # cs"
    using str_of_nat_digits[of "nat i"] by (cases "str_of_nat (nat i)") auto
  from str_of_nat_first[OF s] have c: "c \<noteq> CHR ''-''" by (auto simp: is_digit_def)
  show ?thesis
  proof (cases "i < 0")
    case True
    then show ?thesis
      using scan_nat_str_of_nat[OF r, of "nat (- i)"] assms
      by (auto simp: scan_int_def str_of_int_def follows_value_def)
  next
    case False
    then show ?thesis
      using scan_nat_str_of_nat[OF r, of "nat i"] assms s c
      by (auto simp: scan_int_def str_of_int_def follows_value_def)
  qed
qed


lemma skip_ws_follows: "follows_value rest \<Longrightarrow> skip_ws rest = rest"
  by (auto simp: follows_value_def skip_ws_def json_ws_def)

lemma scan_value_json_value:
  assumes "follows_value rest"
  shows "scan_value (json_value v @ rest) = Some (v, rest)"
proof (cases v)
  case JNull
  then show ?thesis by (simp add: scan_value_def)
next
  case (JBool b)
  then show ?thesis by (simp add: scan_value_def)
next
  case (JInt i)
  obtain c cs where s: "str_of_nat (nat \<bar>i\<bar>) = c # cs"
    using str_of_nat_digits[of "nat \<bar>i\<bar>"] by (cases "str_of_nat (nat \<bar>i\<bar>)") auto
  from str_of_nat_first[OF s] have c: "is_digit c" by simp
  have "\<exists>d ds. str_of_int i = d # ds \<and> (d = CHR ''-'' \<or> is_digit d)"
  proof (cases "i < 0")
    case True
    then show ?thesis by (simp add: str_of_int_def)
  next
    case False
    then have "nat \<bar>i\<bar> = nat i" by simp
    with s c False show ?thesis by (simp add: str_of_int_def)
  qed
  then obtain d ds where d: "str_of_int i = d # ds" "d = CHR ''-'' \<or> is_digit d" by blast
  then have "d \<noteq> CHR ''n''" "d \<noteq> CHR ''t''" "d \<noteq> CHR ''f''" "d \<noteq> CHR 0x22"
    by (auto simp: is_digit_def)
  then have "scan_value (str_of_int i @ rest) = scan_int (str_of_int i @ rest)"
    using d(1) by (simp add: scan_value_def)
  then show ?thesis using JInt scan_int_str_of_int[OF assms] by simp
next
  case (JStr t)
  then show ?thesis by (simp add: scan_value_def json_string_def scan_string_escaped)
qed

lemma json_value_no_ws: "skip_ws (json_value v @ rest) = json_value v @ rest"
proof (cases v)
  case (JInt i)
  obtain c cs where s: "str_of_nat (nat \<bar>i\<bar>) = c # cs"
    using str_of_nat_digits[of "nat \<bar>i\<bar>"] by (cases "str_of_nat (nat \<bar>i\<bar>)") auto
  from str_of_nat_first[OF s] have c: "is_digit c" by simp
  then have "\<not> json_ws c" by (auto simp: is_digit_def json_ws_def)
  then show ?thesis
  proof (cases "i < 0")
    case True
    then show ?thesis using JInt by (simp add: str_of_int_def skip_ws_def json_ws_def)
  next
    case False
    then have "nat \<bar>i\<bar> = nat i" by simp
    with s \<open>\<not> json_ws c\<close> False JInt show ?thesis by (simp add: str_of_int_def skip_ws_def)
  qed
qed (simp_all add: skip_ws_def json_ws_def json_string_def)

lemma scan_member_json_item:
  assumes "follows_value rest"
  shows "scan_member (json_item (k, v) @ rest) = Some ((k, v), rest)"
proof -
  have 1: "skip_ws (json_item (k, v) @ rest)
             = CHR 0x22 # concat (map json_escape_char k) @ CHR 0x22 # '': '' @ json_value v @ rest"
    by (simp add: json_item_def json_string_def skip_ws_def json_ws_def)
  have 2: "skip_ws ('': '' @ json_value v @ rest) = CHR '':'' # '' '' @ json_value v @ rest"
    by (simp add: skip_ws_def json_ws_def)
  have 3: "skip_ws ('' '' @ json_value v @ rest) = json_value v @ rest"
    using json_value_no_ws[of v rest] by (simp add: skip_ws_def json_ws_def)
  show ?thesis
    unfolding scan_member_def 1
    using 2 3 by (simp add: scan_string_escaped scan_value_json_value[OF assms] skip_ws_follows[OF assms])
qed

lemma scan_member_space: "scan_member (CHR '' '' # s) = scan_member s"
  by (simp add: scan_member_def skip_ws_def json_ws_def)

lemma members_space: "members acc (CHR '' '' # s) = members acc s"
  by (subst (1 2) members.simps) (simp add: scan_member_space)

lemma members_join:
  "r \<noteq> [] \<Longrightarrow>
   members acc (join '', '' (map json_item r) @ ''}'')
     = Some (foldl (\<lambda>d (k, v). dict_set d k v) acc r, [])"
proof (induction r arbitrary: acc)
  case Nil
  then show ?case by simp
next
  case (Cons x xs)
  obtain k v where x: "x = (k, v)" by (cases x)
  show ?case
  proof (cases xs)
    case Nil
    have "follows_value ''}''" by (simp add: follows_value_def)
    from scan_member_json_item[OF this, of k v] show ?thesis
      using Nil x by (subst members.simps) simp
  next
    case (Cons y ys)
    let ?rest = "'', '' @ join '', '' (map json_item xs) @ ''}''"
    have "follows_value ?rest" by (simp add: follows_value_def)
    from scan_member_json_item[OF this, of k v]
    have "members acc (json_item (k, v) @ ?rest)
            = members (dict_set acc k v) (CHR '' '' # join '', '' (map json_item xs) @ ''}'')"
      by (subst members.simps) simp
    also have "\<dots> = Some (foldl (\<lambda>d (k, v). dict_set d k v) (dict_set acc k v) xs, [])"
      using Cons.IH[of "dict_set acc k v"] Cons by (simp add: members_space)
    finally show ?thesis using Cons x by simp
  qed
qed

lemma dict_of_items:
  "distinct (map fst (acc @ r)) \<Longrightarrow> foldl (\<lambda>d (k, v). dict_set d k v) acc r = acc @ r"
proof (induction r arbitrary: acc)
  case Nil
  show ?case by simp
next
  case (Cons x xs)
  obtain k v where x: "x = (k, v)" by (cases x)
  from Cons.prems x have "k \<notin> fst ` set acc" by auto
  then have "dict_set acc k v = acc @ [(k, v)]" by (rule dict_set_new)
  moreover from Cons.prems x have "distinct (map fst ((acc @ [(k, v)]) @ xs))" by simp
  ultimately show ?case using Cons.IH[of "acc @ [(k, v)]"] x by simp
qed

lemma json_roundtrip:
  assumes "distinct (map fst r)"
  shows "json_loads (json_dumps r) = Some r"
proof (cases r)
  case Nil
  then show ?thesis by (simp add: json_loads_def json_dumps_def skip_ws_def json_ws_def)
next
  case (Cons x xs)
  obtain k v where x: "x = (k, v)" by (cases x)
  obtain t where t: "join '', '' (map json_item r) @ ''}'' = CHR 0x22 # t"
    using Cons x by (cases xs) (simp_all add: json_item_def json_string_def)
  have m: "members [] (join '', '' (map json_item r) @ ''}'') = Some (r, [])"
    using members_join[of r "[]"] dict_of_items[of "[]" r] assms Cons by simp
  have "skip_ws (CHR 0x22 # t) = CHR 0x22 # t" by (simp add: skip_ws_def json_ws_def)
  then show ?thesis
    using m t by (simp add: json_loads_def json_dumps_def skip_ws_def json_ws_def)
qed

text \<open>
  Claim C10: whenever \<open>normalize\<close> accepts a raw record, the string stored under
  \<open>raw_data\<close> in the normalized record parses, with \<open>json.loads\<close>, to the raw record
  itself. A Python dict holds each key once, which for the association list is the
  hypothesis that the keys are distinct.
\<close>

theorem raw_data_reparses_to_the_record:
  assumes "normalize r = Inr n" and "distinct (map fst r)"
  shows "\<exists>raw. map_of n ''raw_data'' = Some (PStr raw) \<and> json_loads raw = Some r"
proof -
  from assms(1) obtain named where "n = dict_set named ''raw_data'' (PStr (json_dumps r))"
    by (auto simp: normalize_def Let_def split: sum.splits if_splits)
  then have "map_of n ''raw_data'' = Some (PStr (json_dumps r))" by (simp only: map_of_dict_set)
  with json_roundtrip[OF assms(2)] show ?thesis by blast
qed

theorem raw_data_reparses_to_the_record_witness:
  "normalize named_carrier =
     Inr [(''usdot_number'', PInt 80),
          (''legal_name'', PStr [CHR ''A'', CHR 0x22, CHR 0x5C, CHR 0x0A, CHR 0xE9, CHR ''b'']),
          (''raw_data'', PStr (json_dumps named_carrier))] \<and>
   distinct (map fst named_carrier) \<and>
   (\<exists>raw. map_of [(''usdot_number'', PInt 80),
          (''legal_name'', PStr [CHR ''A'', CHR 0x22, CHR 0x5C, CHR 0x0A, CHR 0xE9, CHR ''b'']),
          (''raw_data'', PStr (json_dumps named_carrier))] ''raw_data'' = Some (PStr raw) \<and>
      json_loads raw = Some named_carrier)"
  using raw_data_reparses_to_the_record
    [of named_carrier "[(''usdot_number'', PInt 80),
          (''legal_name'', PStr [CHR ''A'', CHR 0x22, CHR 0x5C, CHR 0x0A, CHR 0xE9, CHR ''b'']),
          (''raw_data'', PStr (json_dumps named_carrier))]"]
  by (simp add: named_carrier_def normalize_def FIELD_MAPPING_def clean_value_def
      strip_value_def is_null_text_def except_value_type_def extract_cargo_carried_def
      cargo_fields_def dict_has_def py_strip_def py_isspace_def py_upper_def upper_char_def
      ends_with_def Let_def)

end
